theory Spec2Isabelle
  imports Main "HOL-Library.AList"
begin

unbundle bit_operations_syntax

section \<open>Python values: exceptions, sequences\<close>

text \<open>
  The toolchain is Python. Integers are unbounded (\<open>int\<close>); every mask the source
  writes (\<open>& 0xFF\<close>, \<open>& 0x100\<close>, \<open>>> 3\<close>) is written out with \<open>AND\<close> and
  \<open>drop_bit\<close>. An exception is a value of type \<open>exn\<close>; a function that can raise
  returns \<open>exn + 'a\<close> with \<open>Inl\<close> for the exception.
\<close>

text \<open>The messages of the simulator's \<open>RuntimeError\<close>s, with the numbers they format.\<close>

datatype runtime_msg =
    PCUnloaded int
  | STImmediate
  | StackOverflow int
  | StackUnderflow int
  | InvalidEncoding string int int
  | InvalidOpcode int int

text \<open>The messages of the \<open>ValueError\<close>s raised by the assembler and the codecs.\<close>

datatype value_msg =
    UnknownEscape char
  | NonAscii char
  | STNoImmediate
  | CannotUseReg "string option" string string
  | InvalidMode string
  | ALUOnlyR0R1 string "string option"
  | InvalidModeFor string string
  | InvalidLiteral string
  | FromHex
  | ByteRange
  | HexMissingStart nat
  | HexTooShort nat
  | HexChecksum nat int int
  | HexByteCount nat
  | SrecMissingS nat
  | SrecTooShort nat
  | SrecByteCount nat
  | SrecChecksum nat int int

datatype exn =
    RuntimeError runtime_msg
  | ValueError value_msg
  | IndexError
  | KeyError
  | TypeError

fun andthen :: "exn + 'a \<Rightarrow> ('a \<Rightarrow> exn + 'b) \<Rightarrow> exn + 'b" where
  "andthen (Inl e) f = Inl e"
| "andthen (Inr x) f = f x"

text \<open>
  \<open>xs[i]\<close> on a list or bytearray: an index in \<open>[-len, 0)\<close> counts from the end,
  an index outside \<open>[-len, len)\<close> raises IndexError.
\<close>

definition py_getitem :: "'a list \<Rightarrow> int \<Rightarrow> exn + 'a" where
  "py_getitem xs i =
     (let n = int (length xs) in
      if 0 \<le> i \<and> i < n then Inr (xs ! nat i)
      else if - n \<le> i \<and> i < 0 then Inr (xs ! nat (n + i))
      else Inl IndexError)"

definition py_setitem :: "'a list \<Rightarrow> int \<Rightarrow> 'a \<Rightarrow> exn + 'a list" where
  "py_setitem xs i v =
     (let n = int (length xs) in
      if 0 \<le> i \<and> i < n then Inr (xs[nat i := v])
      else if - n \<le> i \<and> i < 0 then Inr (xs[nat (n + i) := v])
      else Inl IndexError)"

section \<open>Simulator: decode tables (simulator.py)\<close>

text \<open>
  The register names \<open>"A"\<close>, \<open>"R0"\<close>, \<open>"R1"\<close> of the simulator only ever come out of
  its own decode tables, so they are an enumeration here.
\<close>

datatype reg = A | R0 | R1

definition LD_OPCODES :: "int \<rightharpoonup> (string \<times> reg)" where
  "LD_OPCODES = [0 \<mapsto> (''LD'', A), 1 \<mapsto> (''LD'', R0), 2 \<mapsto> (''LD'', R1)]"

definition ST_OPCODES :: "int \<rightharpoonup> (string \<times> reg)" where
  "ST_OPCODES = [3 \<mapsto> (''ST'', A), 4 \<mapsto> (''ST'', R0), 5 \<mapsto> (''ST'', R1)]"

definition ALU_OPCODES :: "int \<rightharpoonup> string" where
  "ALU_OPCODES = [6 \<mapsto> ''ADD'', 7 \<mapsto> ''SUB'', 8 \<mapsto> ''AND'',
                  9 \<mapsto> ''OR'', 10 \<mapsto> ''XOR'', 11 \<mapsto> ''CMP'']"

definition BRANCH_CONDITION :: "int \<rightharpoonup> (string \<times> (bool \<Rightarrow> bool \<Rightarrow> bool))" where
  "BRANCH_CONDITION =
     [0x68 \<mapsto> (''BZ'', \<lambda>zf cf. zf), 0x69 \<mapsto> (''BNZ'', \<lambda>zf cf. \<not> zf),
      0x6A \<mapsto> (''BC'', \<lambda>zf cf. cf), 0x6B \<mapsto> (''BNC'', \<lambda>zf cf. \<not> cf)]"

text \<open>\<open>REG_MODE_MAP[primary][r_bit]\<close>: the register-mode cross table of the decoder.\<close>

fun REG_MODE_MAP :: "reg \<Rightarrow> int \<rightharpoonup> reg" where
  "REG_MODE_MAP A = [0 \<mapsto> R0, 1 \<mapsto> R1]"
| "REG_MODE_MAP R0 = [0 \<mapsto> A, 1 \<mapsto> R1]"
| "REG_MODE_MAP R1 = [0 \<mapsto> A, 1 \<mapsto> R0]"

definition REG_ENCODING :: "int \<rightharpoonup> reg" where
  "REG_ENCODING = [0 \<mapsto> A, 1 \<mapsto> R0, 2 \<mapsto> R1]"

definition IO_ADDR :: int where
  "IO_ADDR = 0xFF"

definition STACK_DEPTH :: int where
  "STACK_DEPTH = 4"

section \<open>Simulator: CPU state\<close>

text \<open>
  The fields of class \<open>CPU\<close>. \<open>out\<close> is the byte stream written to
  \<open>sys.stdout.buffer\<close> by \<open>mem_write\<close>; the trace and the diagnostics on stderr are
  not modelled.
\<close>

record cpu =
  a :: int
  r :: "int list"
  pc :: int
  z :: bool
  c :: bool
  sp :: int
  stack :: "int list"
  mem :: "int list"
  loaded :: "int set"
  halted :: bool
  cycles :: int
  out :: "int list"

definition CPU_init :: cpu where
  "CPU_init = \<lparr> a = 0, r = [0, 0], pc = 0, z = False, c = False, sp = 0,
                stack = replicate (nat STACK_DEPTH) 0, mem = replicate 256 0,
                loaded = {}, halted = False, cycles = 0, out = [] \<rparr>"

fun get_reg :: "cpu \<Rightarrow> reg \<Rightarrow> exn + int" where
  "get_reg s A = Inr (a s)"
| "get_reg s R0 = py_getitem (r s) 0"
| "get_reg s R1 = py_getitem (r s) 1"

fun set_reg :: "cpu \<Rightarrow> reg \<Rightarrow> int \<Rightarrow> exn + cpu" where
  "set_reg s A v = Inr (s\<lparr>a := v AND 0xFF\<rparr>)"
| "set_reg s R0 v = andthen (py_setitem (r s) 0 (v AND 0xFF)) (\<lambda>rs. Inr (s\<lparr>r := rs\<rparr>))"
| "set_reg s R1 v = andthen (py_setitem (r s) 1 (v AND 0xFF)) (\<lambda>rs. Inr (s\<lparr>r := rs\<rparr>))"

text \<open>
  \<open>load_map\<close>: the address map is a dict, modelled as the list of its items in
  insertion order. A bytearray cell only takes a value in \<open>range(256)\<close>.
\<close>

fun load_map :: "cpu \<Rightarrow> (int \<times> int) list \<Rightarrow> exn + cpu" where
  "load_map s [] = Inr s"
| "load_map s ((addr, v) # items) =
     (if addr < 256 then
        andthen (py_setitem (mem s) addr v)
          (\<lambda>m. if 0 \<le> v \<and> v < 256
                then load_map (s\<lparr>mem := m, loaded := insert addr (loaded s)\<rparr>) items
                else Inl (ValueError ByteRange))
      else load_map s items)"

definition fetch :: "cpu \<Rightarrow> exn + (int \<times> cpu)" where
  "fetch s = andthen (py_getitem (mem s) (pc s))
               (\<lambda>v. Inr (v, s\<lparr>pc := (pc s + 1) AND 0xFF\<rparr>))"

definition mem_read :: "cpu \<Rightarrow> int \<Rightarrow> exn + int" where
  "mem_read s addr = py_getitem (mem s) (addr AND 0xFF)"

definition mem_write :: "cpu \<Rightarrow> int \<Rightarrow> int \<Rightarrow> exn + cpu" where
  "mem_write s addr0 val0 =
     (let addr = addr0 AND 0xFF; v = val0 AND 0xFF in
      andthen (py_setitem (mem s) addr v)
        (\<lambda>m. Inr (if addr = IO_ADDR then s\<lparr>mem := m, out := out s @ [v]\<rparr>
                   else s\<lparr>mem := m\<rparr>)))"

definition push :: "cpu \<Rightarrow> int \<Rightarrow> exn + cpu" where
  "push s v =
     (if sp s \<ge> STACK_DEPTH then Inl (RuntimeError (StackOverflow (sp s)))
      else andthen (py_setitem (stack s) (sp s) (v AND 0xFF))
             (\<lambda>st. Inr (s\<lparr>stack := st, sp := sp s + 1\<rparr>)))"

definition pop :: "cpu \<Rightarrow> exn + (int \<times> cpu)" where
  "pop s =
     (if sp s \<le> 0 then Inl (RuntimeError (StackUnderflow (sp s)))
      else let s' = s\<lparr>sp := sp s - 1\<rparr> in
           andthen (py_getitem (stack s') (sp s')) (\<lambda>v. Inr (v, s')))"

definition set_zc :: "cpu \<Rightarrow> int \<Rightarrow> cpu" where
  "set_zc s result = (let val8 = result AND 0xFF in
                      s\<lparr>z := (val8 = 0), c := (result AND 0x100 \<noteq> 0)\<rparr>)"

definition set_z_only :: "cpu \<Rightarrow> int \<Rightarrow> cpu" where
  "set_z_only s v = s\<lparr>z := (v AND 0xFF = 0)\<rparr>"

definition set_z_clear_c :: "cpu \<Rightarrow> int \<Rightarrow> cpu" where
  "set_z_clear_c s v = s\<lparr>z := (v AND 0xFF = 0), c := False\<rparr>"

section \<open>Simulator: addressing modes\<close>

text \<open>
  \<open>resolve_source\<close> returns the source value and the state after its fetch. With an
  \<open>mm\<close> outside 0..3 the Python falls off the \<open>elif\<close> chain and returns \<open>None\<close>, on
  which both callers raise TypeError (\<open>val &= 0xFF\<close>, \<open>self.a + src\<close>); \<open>step\<close> only
  passes \<open>opcode & 0x03\<close>.
\<close>

definition resolve_source :: "cpu \<Rightarrow> int \<Rightarrow> int \<Rightarrow> reg \<Rightarrow> exn + (int \<times> cpu)" where
  "resolve_source s mm r_bit primary_reg =
     (if mm = 0 then fetch s
      else if mm = 1 then
        (case REG_MODE_MAP primary_reg r_bit of
           None \<Rightarrow> Inl KeyError
         | Some src_reg \<Rightarrow> andthen (get_reg s src_reg) (\<lambda>v. Inr (v, s)))
      else if mm = 2 then
        andthen (fetch s) (\<lambda>(addr, s1).
          andthen (mem_read s1 addr) (\<lambda>v. Inr (v, s1)))
      else if mm = 3 then
        andthen (fetch s) (\<lambda>(offset, s1).
          andthen (py_getitem (r s1) r_bit) (\<lambda>rv.
            andthen (mem_read s1 ((rv + offset) AND 0xFF)) (\<lambda>v. Inr (v, s1))))
      else Inl TypeError)"

definition resolve_dest :: "cpu \<Rightarrow> int \<Rightarrow> int \<Rightarrow> reg \<Rightarrow> int \<Rightarrow> exn + cpu" where
  "resolve_dest s mm r_bit primary_reg v =
     (if mm = 0 then Inl (RuntimeError STImmediate)
      else if mm = 1 then
        (case REG_MODE_MAP primary_reg r_bit of
           None \<Rightarrow> Inl KeyError
         | Some dst_reg \<Rightarrow> set_reg s dst_reg v)
      else if mm = 2 then
        andthen (fetch s) (\<lambda>(addr, s1). mem_write s1 addr v)
      else if mm = 3 then
        andthen (fetch s) (\<lambda>(offset, s1).
          andthen (py_getitem (r s1) r_bit) (\<lambda>rv.
            mem_write s1 ((rv + offset) AND 0xFF) v))
      else Inr s)"

section \<open>Simulator: executing one instruction\<close>

text \<open>The body of the ALU arm of \<open>step\<close>, after \<open>src\<close> has been resolved.\<close>

definition alu :: "string \<Rightarrow> int \<Rightarrow> cpu \<Rightarrow> cpu" where
  "alu mnemonic src s =
     (if mnemonic = ''ADD'' then
        (let result = a s + src; s1 = set_zc s result in s1\<lparr>a := result AND 0xFF\<rparr>)
      else if mnemonic = ''SUB'' then
        (let s1 = s\<lparr>c := (a s \<ge> src)\<rparr>;
             s2 = s1\<lparr>a := (a s1 - src) AND 0xFF\<rparr>
         in s2\<lparr>z := (a s2 = 0)\<rparr>)
      else if mnemonic = ''AND'' then
        (let s1 = s\<lparr>a := a s AND src\<rparr> in set_z_clear_c s1 (a s1))
      else if mnemonic = ''OR'' then
        (let s1 = s\<lparr>a := a s OR src\<rparr> in set_z_clear_c s1 (a s1))
      else if mnemonic = ''XOR'' then
        (let s1 = s\<lparr>a := a s XOR src\<rparr> in set_z_clear_c s1 (a s1))
      else if mnemonic = ''CMP'' then
        (let result = a s - src; s1 = s\<lparr>c := (a s \<ge> src)\<rparr>
         in s1\<lparr>z := (result AND 0xFF = 0)\<rparr>)
      else s)"

text \<open>
  The \<open>if/elif\<close> chain of \<open>step\<close>, from the decode of the fetched opcode to the last
  \<open>else\<close>; \<open>s\<close> is the state after the opcode fetch, \<open>pc_before\<close> the address the
  opcode came from.
\<close>

definition execute :: "int \<Rightarrow> int \<Rightarrow> cpu \<Rightarrow> exn + cpu" where
  "execute pc_before opcode s =
     (let iiiii = drop_bit 3 opcode AND 0x1F;
          r_bit = drop_bit 2 opcode AND 1;
          mm = opcode AND 0x03
      in
      case LD_OPCODES iiiii of
        Some (m, primary_reg) \<Rightarrow>
          andthen (resolve_source s mm r_bit primary_reg)
            (\<lambda>(v, s1). set_reg s1 primary_reg v)
      | None \<Rightarrow>
      (case ST_OPCODES iiiii of
        Some (m, primary_reg) \<Rightarrow>
          andthen (get_reg s primary_reg)
            (\<lambda>v. resolve_dest s mm r_bit primary_reg v)
      | None \<Rightarrow>
      (case ALU_OPCODES iiiii of
        Some mnemonic \<Rightarrow>
          andthen (resolve_source s mm r_bit A) (\<lambda>(src, s1). Inr (alu mnemonic src s1))
      | None \<Rightarrow>
      if opcode = 0x60 then
        andthen (fetch s) (\<lambda>(addr, s1). Inr (s1\<lparr>pc := addr\<rparr>))
      else
      (case BRANCH_CONDITION opcode of
        Some (m, cond_fn) \<Rightarrow>
          andthen (fetch s) (\<lambda>(disp_byte, s1).
            let disp = (if disp_byte < 128 then disp_byte else disp_byte - 256) in
            Inr (if cond_fn (z s1) (c s1) then s1\<lparr>pc := (pc s1 + disp) AND 0xFF\<rparr>
                 else s1))
      | None \<Rightarrow>
      if opcode = 0x70 then
        andthen (fetch s) (\<lambda>(addr, s1).
          andthen (push s1 (pc s1)) (\<lambda>s2. Inr (s2\<lparr>pc := addr\<rparr>)))
      else if opcode = 0x78 then
        andthen (pop s) (\<lambda>(v, s1). Inr (s1\<lparr>pc := v\<rparr>))
      else if iiiii = 0x10 then
        (case REG_ENCODING mm of
           Some reg_name \<Rightarrow> andthen (get_reg s reg_name) (\<lambda>v. push s v)
         | None \<Rightarrow> Inl (RuntimeError (InvalidEncoding ''PUSH'' opcode pc_before)))
      else if iiiii = 0x11 then
        (case REG_ENCODING mm of
           Some reg_name \<Rightarrow> andthen (pop s) (\<lambda>(v, s1). set_reg s1 reg_name v)
         | None \<Rightarrow> Inl (RuntimeError (InvalidEncoding ''POP'' opcode pc_before)))
      else if iiiii = 0x12 then
        (case REG_ENCODING mm of
           Some reg_name \<Rightarrow>
             andthen (get_reg s reg_name) (\<lambda>v0.
               let v = (v0 + 1) AND 0xFF in
               andthen (set_reg s reg_name v) (\<lambda>s1. Inr (set_z_only s1 v)))
         | None \<Rightarrow> Inl (RuntimeError (InvalidEncoding ''INC'' opcode pc_before)))
      else if iiiii = 0x13 then
        (case REG_ENCODING mm of
           Some reg_name \<Rightarrow>
             andthen (get_reg s reg_name) (\<lambda>v0.
               let v = (v0 - 1) AND 0xFF in
               andthen (set_reg s reg_name v) (\<lambda>s1. Inr (set_z_only s1 v)))
         | None \<Rightarrow> Inl (RuntimeError (InvalidEncoding ''DEC'' opcode pc_before)))
      else if opcode = 0xA0 then Inr s
      else if opcode = 0xA8 then Inr (s\<lparr>halted := True\<rparr>)
      else Inl (RuntimeError (InvalidOpcode opcode pc_before))))))"

text \<open>
  \<open>step\<close> (with \<open>trace=False\<close>): the returned flag is Python's return value, True
  while the CPU has not halted.
\<close>

definition step :: "cpu \<Rightarrow> exn + (bool \<times> cpu)" where
  "step s =
     (if halted s then Inr (False, s)
      else if pc s \<notin> loaded s then Inl (RuntimeError (PCUnloaded (pc s)))
      else
        andthen (fetch s) (\<lambda>(opcode, s1).
          andthen (execute (pc s) opcode s1) (\<lambda>s2.
            let s3 = s2\<lparr>cycles := cycles s2 + 1\<rparr> in Inr (\<not> halted s3, s3))))"

section \<open>Simulator: the run loop\<close>

text \<open>
  The dispatch of \<open>execute\<close> depends on the opcode alone. The rule below names its
  fourteen arms; it is used to show that an executed instruction adds exactly one to
  the cycle counter, which is what makes the loop of \<open>run\<close> terminate.
\<close>

lemma andthen_InrE: "andthen m f = Inr y \<Longrightarrow> (\<And>x. m = Inr x \<Longrightarrow> f x = Inr y \<Longrightarrow> P) \<Longrightarrow> P"
  by (cases m) auto

lemma execute_cases [case_names LD ST ALU JMP BR CALL RET PUSH POP INC DEC NOP HLT BAD]:
  obtains
    (LD) m p where "LD_OPCODES (drop_bit 3 opc AND 0x1F) = Some (m, p)"
      "\<And>pcb s. execute pcb opc s =
         andthen (resolve_source s (opc AND 3) (drop_bit 2 opc AND 1) p) (\<lambda>(v, s1). set_reg s1 p v)"
  | (ST) m p where "ST_OPCODES (drop_bit 3 opc AND 0x1F) = Some (m, p)"
      "\<And>pcb s. execute pcb opc s =
         andthen (get_reg s p) (\<lambda>v. resolve_dest s (opc AND 3) (drop_bit 2 opc AND 1) p v)"
  | (ALU) mn where "ALU_OPCODES (drop_bit 3 opc AND 0x1F) = Some mn"
      "\<And>pcb s. execute pcb opc s =
         andthen (resolve_source s (opc AND 3) (drop_bit 2 opc AND 1) A) (\<lambda>(src, s1). Inr (alu mn src s1))"
  | (JMP) "opc = 0x60"
      "\<And>pcb s. execute pcb opc s = andthen (fetch s) (\<lambda>(addr, s1). Inr (s1\<lparr>pc := addr\<rparr>))"
  | (BR) m cond_fn where "BRANCH_CONDITION opc = Some (m, cond_fn)"
      "\<And>pcb s. execute pcb opc s =
         andthen (fetch s) (\<lambda>(disp_byte, s1).
            let disp = (if disp_byte < 128 then disp_byte else disp_byte - 256) in
            Inr (if cond_fn (z s1) (c s1) then s1\<lparr>pc := (pc s1 + disp) AND 0xFF\<rparr> else s1))"
  | (CALL) "opc = 0x70"
      "\<And>pcb s. execute pcb opc s =
         andthen (fetch s) (\<lambda>(addr, s1). andthen (push s1 (pc s1)) (\<lambda>s2. Inr (s2\<lparr>pc := addr\<rparr>)))"
  | (RET) "opc = 0x78"
      "\<And>pcb s. execute pcb opc s = andthen (pop s) (\<lambda>(v, s1). Inr (s1\<lparr>pc := v\<rparr>))"
  | (PUSH) "drop_bit 3 opc AND 0x1F = 0x10"
      "\<And>pcb s. execute pcb opc s =
         (case REG_ENCODING (opc AND 3) of
            Some reg_name \<Rightarrow> andthen (get_reg s reg_name) (\<lambda>v. push s v)
          | None \<Rightarrow> Inl (RuntimeError (InvalidEncoding ''PUSH'' opc pcb)))"
  | (POP) "drop_bit 3 opc AND 0x1F = 0x11"
      "\<And>pcb s. execute pcb opc s =
         (case REG_ENCODING (opc AND 3) of
            Some reg_name \<Rightarrow> andthen (pop s) (\<lambda>(v, s1). set_reg s1 reg_name v)
          | None \<Rightarrow> Inl (RuntimeError (InvalidEncoding ''POP'' opc pcb)))"
  | (INC) "drop_bit 3 opc AND 0x1F = 0x12"
      "\<And>pcb s. execute pcb opc s =
         (case REG_ENCODING (opc AND 3) of
            Some reg_name \<Rightarrow>
              andthen (get_reg s reg_name) (\<lambda>v0.
                let v = (v0 + 1) AND 0xFF in
                andthen (set_reg s reg_name v) (\<lambda>s1. Inr (set_z_only s1 v)))
          | None \<Rightarrow> Inl (RuntimeError (InvalidEncoding ''INC'' opc pcb)))"
  | (DEC) "drop_bit 3 opc AND 0x1F = 0x13"
      "\<And>pcb s. execute pcb opc s =
         (case REG_ENCODING (opc AND 3) of
            Some reg_name \<Rightarrow>
              andthen (get_reg s reg_name) (\<lambda>v0.
                let v = (v0 - 1) AND 0xFF in
                andthen (set_reg s reg_name v) (\<lambda>s1. Inr (set_z_only s1 v)))
          | None \<Rightarrow> Inl (RuntimeError (InvalidEncoding ''DEC'' opc pcb)))"
  | (NOP) "opc = 0xA0" "\<And>pcb s. execute pcb opc s = Inr s"
  | (HLT) "opc = 0xA8" "\<And>pcb s. execute pcb opc s = Inr (s\<lparr>halted := True\<rparr>)"
  | (BAD) "LD_OPCODES (drop_bit 3 opc AND 0x1F) = None" "ST_OPCODES (drop_bit 3 opc AND 0x1F) = None"
      "ALU_OPCODES (drop_bit 3 opc AND 0x1F) = None" "BRANCH_CONDITION opc = None"
      "opc \<notin> {0x60, 0x70, 0x78, 0xA0, 0xA8}"
      "drop_bit 3 opc AND 0x1F \<notin> {0x10, 0x11, 0x12, 0x13}"
      "\<And>pcb s. execute pcb opc s = Inl (RuntimeError (InvalidOpcode opc pcb))"
proof -
  let ?i = "drop_bit 3 opc AND 0x1F"
  consider (c1) x where "LD_OPCODES ?i = Some x"
    | (c2) x where "LD_OPCODES ?i = None" "ST_OPCODES ?i = Some x"
    | (c3) x where "LD_OPCODES ?i = None" "ST_OPCODES ?i = None" "ALU_OPCODES ?i = Some x"
    | (c4) "LD_OPCODES ?i = None" "ST_OPCODES ?i = None" "ALU_OPCODES ?i = None"
    by (cases "LD_OPCODES ?i"; cases "ST_OPCODES ?i"; cases "ALU_OPCODES ?i") auto
  then show thesis
  proof cases
    case c1
    then show ?thesis by (cases x) (rule LD, simp_all add: execute_def)
  next
    case c2
    then show ?thesis by (cases x) (rule ST, simp_all add: execute_def)
  next
    case c3
    then show ?thesis by (intro ALU) (simp_all add: execute_def)
  next
    case c4
    note n = c4
    show ?thesis
    proof (cases "opc = 0x60")
      case True
      then show ?thesis by (intro JMP) (simp_all add: execute_def LD_OPCODES_def ST_OPCODES_def ALU_OPCODES_def)
    next
      case n1: False
      show ?thesis
      proof (cases "BRANCH_CONDITION opc")
        case (Some x)
        with n n1 show ?thesis by (cases x) (rule BR, simp_all add: execute_def)
      next
        case n2: None
        show ?thesis
        proof (cases "opc = 0x70")
          case True
          then show ?thesis by (intro CALL) (simp_all add: execute_def LD_OPCODES_def ST_OPCODES_def ALU_OPCODES_def BRANCH_CONDITION_def)
        next
          case n3: False
          show ?thesis
          proof (cases "opc = 0x78")
            case True
            then show ?thesis by (intro RET) (simp_all add: execute_def LD_OPCODES_def ST_OPCODES_def ALU_OPCODES_def BRANCH_CONDITION_def)
          next
            case n4: False
            note nn = n n1 n2 n3 n4
            consider (p) "?i = 0x10" | (q) "?i = 0x11" | (i) "?i = 0x12" | (d) "?i = 0x13"
              | (o) "?i \<noteq> 0x10" "?i \<noteq> 0x11" "?i \<noteq> 0x12" "?i \<noteq> 0x13" by blast
            then show ?thesis
            proof cases
              case p
              with nn show ?thesis by (intro PUSH) (simp_all add: execute_def)
            next
              case q
              with nn show ?thesis by (intro POP) (simp_all add: execute_def)
            next
              case i
              with nn show ?thesis by (intro INC) (simp_all add: execute_def)
            next
              case d
              with nn show ?thesis by (intro DEC) (simp_all add: execute_def)
            next
              case o
              note nn = nn o
              show ?thesis
              proof (cases "opc = 0xA0")
                case True
                then show ?thesis by (intro NOP) (simp_all add: execute_def LD_OPCODES_def ST_OPCODES_def ALU_OPCODES_def BRANCH_CONDITION_def)
              next
                case n5: False
                show ?thesis
                proof (cases "opc = 0xA8")
                  case True
                  then show ?thesis by (intro HLT) (simp_all add: execute_def LD_OPCODES_def ST_OPCODES_def ALU_OPCODES_def BRANCH_CONDITION_def)
                next
                  case False
                  with nn n5 show ?thesis by (intro BAD) (simp_all add: execute_def)
                qed
              qed
            qed
          qed
        qed
      qed
    qed
  qed
qed

lemma fetch_cycles: "fetch s = Inr (v, s') \<Longrightarrow> cycles s' = cycles s"
  by (auto simp: fetch_def elim!: andthen_InrE)

lemma mem_write_cycles: "mem_write s x v = Inr s' \<Longrightarrow> cycles s' = cycles s"
  by (auto simp: mem_write_def Let_def elim!: andthen_InrE split: if_splits)

lemma push_cycles: "push s v = Inr s' \<Longrightarrow> cycles s' = cycles s"
  by (auto simp: push_def elim!: andthen_InrE split: if_splits)

lemma pop_cycles: "pop s = Inr (v, s') \<Longrightarrow> cycles s' = cycles s"
  by (auto simp: pop_def Let_def elim!: andthen_InrE split: if_splits)

lemma set_reg_cycles: "set_reg s x v = Inr s' \<Longrightarrow> cycles s' = cycles s"
  by (cases x) (auto elim!: andthen_InrE)

lemma resolve_source_cycles: "resolve_source s mm rb p = Inr (v, s') \<Longrightarrow> cycles s' = cycles s"
  by (auto simp: resolve_source_def elim!: andthen_InrE split: if_splits option.splits dest!: fetch_cycles)

lemma resolve_dest_cycles: "resolve_dest s mm rb p v = Inr s' \<Longrightarrow> cycles s' = cycles s"
  by (auto simp: resolve_dest_def elim!: andthen_InrE split: if_splits option.splits
      dest!: fetch_cycles set_reg_cycles mem_write_cycles)

lemma alu_cycles: "cycles (alu m src s) = cycles s"
  by (simp add: alu_def Let_def set_zc_def set_z_clear_c_def)

lemma execute_cycles: "execute pcb opc s = Inr s' \<Longrightarrow> cycles s' = cycles s"
  by (cases opc rule: execute_cases)
     (auto simp: alu_cycles set_z_only_def Let_def elim!: andthen_InrE split: if_splits option.splits
      dest!: fetch_cycles set_reg_cycles resolve_source_cycles resolve_dest_cycles push_cycles pop_cycles)

lemma step_cycles: "step s = Inr (True, s') \<Longrightarrow> cycles s' = cycles s + 1"
  by (auto simp: step_def Let_def elim!: andthen_InrE split: if_splits dest!: fetch_cycles execute_cycles)

text \<open>
  \<open>run\<close> (with \<open>trace=False\<close>) returns the exit code. A \<open>RuntimeError\<close> of
  \<open>step\<close> is caught and gives 1; any other exception propagates. \<open>run_end\<close> is the
  code after the \<open>while\<close> loop, reached when the loop condition fails or on
  \<open>break\<close>.
\<close>

definition run_end :: "cpu \<Rightarrow> int \<Rightarrow> int" where
  "run_end s max_cycles = (if cycles s \<ge> max_cycles then 1 else 0)"

function run :: "cpu \<Rightarrow> int \<Rightarrow> exn + int" where
  "run s max_cycles =
     (if cycles s < max_cycles then
        (case step s of
           Inl (RuntimeError e) \<Rightarrow> Inr 1
         | Inl e \<Rightarrow> Inl e
         | Inr (cont, s') \<Rightarrow>
             if \<not> cont then Inr (run_end s' max_cycles)
             else run s' max_cycles)
      else Inr (run_end s max_cycles))"
  by pat_completeness auto
termination
  by (relation "measure (\<lambda>(s, max_cycles). nat (max_cycles - cycles s))")
     (auto dest: step_cycles)

section \<open>Assembler: encoding tables (assembler.py)\<close>

text \<open>
  In the assembler a register name is text taken from the source line, so it stays a
  string; \<open>other_reg\<close> is \<open>None\<close> for the operand forms without a register.
\<close>

definition LD_CODES :: "string \<rightharpoonup> int" where
  "LD_CODES = [''A'' \<mapsto> 0, ''R0'' \<mapsto> 1, ''R1'' \<mapsto> 2]"

definition ST_CODES :: "string \<rightharpoonup> int" where
  "ST_CODES = [''A'' \<mapsto> 3, ''R0'' \<mapsto> 4, ''R1'' \<mapsto> 5]"

definition ALU_INSTRUCTIONS :: "string \<rightharpoonup> int" where
  "ALU_INSTRUCTIONS = [''ADD'' \<mapsto> 6, ''SUB'' \<mapsto> 7, ''AND'' \<mapsto> 8,
                       ''OR'' \<mapsto> 9, ''XOR'' \<mapsto> 10, ''CMP'' \<mapsto> 11]"

definition REG_MODE_R_BIT :: "(string \<times> string option) \<rightharpoonup> int" where
  "REG_MODE_R_BIT =
     [(''A'', Some ''R0'') \<mapsto> 0, (''A'', Some ''R1'') \<mapsto> 1,
      (''R0'', Some ''A'') \<mapsto> 0, (''R0'', Some ''R1'') \<mapsto> 1,
      (''R1'', Some ''A'') \<mapsto> 0, (''R1'', Some ''R0'') \<mapsto> 1]"

definition FIXED_OPCODES :: "string \<rightharpoonup> int" where
  "FIXED_OPCODES =
     [''JMP'' \<mapsto> 0x60, ''BZ'' \<mapsto> 0x68, ''BNZ'' \<mapsto> 0x69, ''BC'' \<mapsto> 0x6A,
      ''BNC'' \<mapsto> 0x6B, ''CALL'' \<mapsto> 0x70, ''RET'' \<mapsto> 0x78,
      ''PUSH A'' \<mapsto> 0x80, ''PUSH R0'' \<mapsto> 0x81, ''PUSH R1'' \<mapsto> 0x82,
      ''POP A'' \<mapsto> 0x88, ''POP R0'' \<mapsto> 0x89, ''POP R1'' \<mapsto> 0x8A,
      ''INC A'' \<mapsto> 0x90, ''INC R0'' \<mapsto> 0x91, ''INC R1'' \<mapsto> 0x92,
      ''DEC A'' \<mapsto> 0x98, ''DEC R0'' \<mapsto> 0x99, ''DEC R1'' \<mapsto> 0x9A,
      ''NOP'' \<mapsto> 0xA0, ''HLT'' \<mapsto> 0xA8]"

definition NO_OPERAND :: "string set" where
  "NO_OPERAND = {''RET'', ''PUSH A'', ''PUSH R0'', ''PUSH R1'',
                 ''POP A'', ''POP R0'', ''POP R1'',
                 ''INC A'', ''INC R0'', ''INC R1'',
                 ''DEC A'', ''DEC R0'', ''DEC R1'',
                 ''NOP'', ''HLT''}"

definition BRANCH_INSTRUCTIONS :: "string set" where
  "BRANCH_INSTRUCTIONS = {''BZ'', ''BNZ'', ''BC'', ''BNC''}"

definition REGISTER_NAMES :: "string set" where
  "REGISTER_NAMES = {''A'', ''R0'', ''R1''}"

section \<open>Assembler: encoding functions\<close>

definition encode_ld_st ::
  "bool \<Rightarrow> string \<Rightarrow> string \<Rightarrow> string option \<Rightarrow> int \<Rightarrow> exn + (int \<times> int option)" where
  "encode_ld_st is_store primary_reg mode other_reg v =
     (case (if is_store then ST_CODES primary_reg else LD_CODES primary_reg) of
        None \<Rightarrow> Inl KeyError
      | Some iiiii \<Rightarrow>
          if mode = ''imm'' then
            (if is_store then Inl (ValueError STNoImmediate)
             else Inr (push_bit 3 iiiii OR 0, Some (v AND 0xFF)))
          else if mode = ''reg'' then
            (case REG_MODE_R_BIT (primary_reg, other_reg) of
               None \<Rightarrow>
                 Inl (ValueError (CannotUseReg other_reg
                        (if is_store then ''ST'' else ''LD'') primary_reg))
             | Some r_bit \<Rightarrow> Inr (push_bit 3 iiiii OR push_bit 2 r_bit OR 1, None))
          else if mode = ''direct'' then
            Inr (push_bit 3 iiiii OR 2, Some (v AND 0xFF))
          else if mode = ''indexed'' then
            (let r_bit = (if other_reg = Some ''R0'' then 0 else 1) in
             Inr (push_bit 3 iiiii OR push_bit 2 r_bit OR 3, Some (v AND 0xFF)))
          else Inl (ValueError (InvalidMode mode)))"

definition encode_alu ::
  "string \<Rightarrow> string \<Rightarrow> string option \<Rightarrow> int \<Rightarrow> exn + (int \<times> int option)" where
  "encode_alu mnemonic mode reg v =
     (case ALU_INSTRUCTIONS mnemonic of
        None \<Rightarrow> Inl KeyError
      | Some iiiii \<Rightarrow>
          if mode = ''imm'' then Inr (push_bit 3 iiiii OR 0, Some (v AND 0xFF))
          else if mode = ''reg'' then
            (if reg \<noteq> Some ''R0'' \<and> reg \<noteq> Some ''R1''
             then Inl (ValueError (ALUOnlyR0R1 mnemonic reg))
             else let r_bit = (if reg = Some ''R0'' then 0 else 1) in
                  Inr (push_bit 3 iiiii OR push_bit 2 r_bit OR 1, None))
          else if mode = ''direct'' then
            Inr (push_bit 3 iiiii OR 2, Some (v AND 0xFF))
          else if mode = ''indexed'' then
            (let r_bit = (if reg = Some ''R0'' then 0 else 1) in
             Inr (push_bit 3 iiiii OR push_bit 2 r_bit OR 3, Some (v AND 0xFF)))
          else Inl (ValueError (InvalidModeFor mode mnemonic)))"

text \<open>The name the assembler's tables use for a register of the simulator.\<close>

fun name_of_reg :: "reg \<Rightarrow> string" where
  "name_of_reg A = ''A''"
| "name_of_reg R0 = ''R0''"
| "name_of_reg R1 = ''R1''"

section \<open>Python strings\<close>

text \<open>
  A \<open>str\<close> is a \<open>string\<close>: a list of characters, each a code point below 256. The
  methods and regular expressions the assembler calls are modelled on such text;
  \<open>upper\<close> and the word class \<open>\w\<close> are the ASCII ones (the source compares their
  results with ASCII keys only). A source line comes out of \<open>splitlines\<close>, so it holds
  no newline, and \<open>.\<close> of a regular expression matches each of its characters.
\<close>

definition py_ord :: "char \<Rightarrow> int" where
  "py_ord ch = of_char ch"

definition isspace :: "char \<Rightarrow> bool" where
  "isspace ch = (py_ord ch \<in> {9, 10, 11, 12, 13, 28, 29, 30, 31, 32, 0x85, 0xA0})"

definition lstrip :: "string \<Rightarrow> string" where
  "lstrip s = dropWhile isspace s"

definition rstrip :: "string \<Rightarrow> string" where
  "rstrip s = rev (dropWhile isspace (rev s))"

definition strip :: "string \<Rightarrow> string" where
  "strip s = rstrip (lstrip s)"

text \<open>\<open>s.strip(chars)\<close>\<close>

definition strip_chars :: "string \<Rightarrow> string \<Rightarrow> string" where
  "strip_chars s chars =
     rev (dropWhile (\<lambda>x. x \<in> set chars) (rev (dropWhile (\<lambda>x. x \<in> set chars) s)))"

definition upper_char :: "char \<Rightarrow> char" where
  "upper_char ch = (if 97 \<le> py_ord ch \<and> py_ord ch \<le> 122 then char_of (py_ord ch - 32) else ch)"

definition upper :: "string \<Rightarrow> string" where
  "upper s = map upper_char s"

definition startswith :: "string \<Rightarrow> string \<Rightarrow> bool" where
  "startswith s p = (take (length p) s = p)"

definition endswith :: "string \<Rightarrow> string \<Rightarrow> bool" where
  "endswith s p = (length p \<le> length s \<and> drop (length s - length p) s = p)"

text \<open>\<open>s.split(sep)\<close> for a one-character separator: always at least one part.\<close>

fun split_sep :: "char \<Rightarrow> string \<Rightarrow> string list" where
  "split_sep sep [] = [[]]"
| "split_sep sep (x # xs) =
     (if x = sep then [] # split_sep sep xs
      else (case split_sep sep xs of
              [] \<Rightarrow> [[x]]
            | w # ws \<Rightarrow> (x # w) # ws))"

text \<open>\<open>s.split(sep, 1)\<close>: one part, or the text before and after the first separator.\<close>

definition split_sep1 :: "char \<Rightarrow> string \<Rightarrow> string list" where
  "split_sep1 sep s =
     (case dropWhile (\<lambda>x. x \<noteq> sep) s of
        [] \<Rightarrow> [s]
      | _ # rest \<Rightarrow> [takeWhile (\<lambda>x. x \<noteq> sep) s, rest])"

text \<open>
  \<open>s.split(None, 1)\<close>: the first run of non-blank characters, and the rest from its
  first non-blank character on (trailing blanks kept); no part at all for blank text.
\<close>

definition split_ws1 :: "string \<Rightarrow> string list" where
  "split_ws1 s =
     (let s1 = dropWhile isspace s in
      if s1 = [] then []
      else let w = takeWhile (\<lambda>x. \<not> isspace x) s1;
               rest = dropWhile isspace (dropWhile (\<lambda>x. \<not> isspace x) s1)
           in if rest = [] then [w] else [w, rest])"

text \<open>
  \<open>int(s, base)\<close> on text: blanks around, an optional sign, for base 16 or 2 an optional
  prefix \<open>0x\<close> or \<open>0b\<close> (and one underscore after it), then digits with single
  underscores between them. \<open>None\<close> stands for the ValueError.
\<close>

definition digit_val :: "char \<Rightarrow> int option" where
  "digit_val ch =
     (let k = py_ord ch in
      if 48 \<le> k \<and> k \<le> 57 then Some (k - 48)
      else if 97 \<le> k \<and> k \<le> 122 then Some (k - 97 + 10)
      else if 65 \<le> k \<and> k \<le> 90 then Some (k - 65 + 10)
      else None)"

fun parse_digits :: "int \<Rightarrow> int \<Rightarrow> bool \<Rightarrow> string \<Rightarrow> int option" where
  "parse_digits base acc prev_us [] = (if prev_us then None else Some acc)"
| "parse_digits base acc prev_us (x # xs) =
     (if x = CHR ''_'' then
        (if prev_us then None else parse_digits base acc True xs)
      else (case digit_val x of
              None \<Rightarrow> None
            | Some d \<Rightarrow> if d < base then parse_digits base (acc * base + d) False xs
                        else None))"

definition py_int :: "int \<Rightarrow> string \<Rightarrow> int option" where
  "py_int base s0 =
     (let s1 = strip s0;
          neg = startswith s1 ''-'';
          s2 = (if startswith s1 ''+'' \<or> startswith s1 ''-'' then tl s1 else s1);
          pre = (base = 16 \<and> (startswith s2 ''0x'' \<or> startswith s2 ''0X'')) \<or>
                (base = 2 \<and> (startswith s2 ''0b'' \<or> startswith s2 ''0B''));
          s3 = (if pre then drop 2 s2 else s2);
          s4 = (if pre \<and> startswith s3 ''_'' then tl s3 else s3)
      in if s4 = [] \<or> startswith s4 ''_'' then None
         else map_option (\<lambda>n. if neg then - n else n) (parse_digits base 0 False s4))"

section \<open>Assembler: number and operand parsing\<close>

definition ESCAPE_MAP :: "char \<rightharpoonup> int" where
  "ESCAPE_MAP = [CHR ''n'' \<mapsto> 0x0A, CHR ''t'' \<mapsto> 0x09, CHR ''r'' \<mapsto> 0x0D,
                 CHR ''0'' \<mapsto> 0x00, CHR 0x5C \<mapsto> 0x5C]"

text \<open>
  \<open>decode_string\<close>: the index loop is a recursion on the rest of the text. A
  backslash that is the last character is no escape and is appended as it is.
\<close>

fun decode_string :: "string \<Rightarrow> exn + int list" where
  "decode_string [] = Inr []"
| "decode_string [x] =
     (if py_ord x > 0x7F then Inl (ValueError (NonAscii x)) else Inr [py_ord x])"
| "decode_string (x # ch # rest) =
     (if x = CHR 0x5C then
        (case ESCAPE_MAP ch of
           Some b \<Rightarrow> andthen (decode_string rest) (\<lambda>res. Inr (b # res))
         | None \<Rightarrow> Inl (ValueError (UnknownEscape ch)))
      else if py_ord x > 0x7F then Inl (ValueError (NonAscii x))
      else andthen (decode_string (ch # rest)) (\<lambda>res. Inr (py_ord x # res)))"

text \<open>
  A dict is the list of its items in insertion order: \<open>map_of\<close> looks a key up,
  \<open>AList.update\<close> is the assignment \<open>d[k] = v\<close>. \<open>symbols=None\<close> behaves as the empty
  dict in \<open>parse_number\<close>. \<open>int(s, 16)\<close> and \<open>int(s, 2)\<close> are called outside the
  \<open>try\<close>, so their ValueError propagates.
\<close>

definition parse_number :: "string \<Rightarrow> (string \<times> int) list \<Rightarrow> exn + int option" where
  "parse_number s0 symbols =
     (let s = strip s0 in
      case map_of symbols s of
        Some v \<Rightarrow> Inr (Some v)
      | None \<Rightarrow>
          if startswith s ''0x'' \<or> startswith s ''0X'' then
            (case py_int 16 s of
               Some n \<Rightarrow> Inr (Some n)
             | None \<Rightarrow> Inl (ValueError (InvalidLiteral s)))
          else if startswith s ''0b'' \<or> startswith s ''0B'' then
            (case py_int 2 s of
               Some n \<Rightarrow> Inr (Some n)
             | None \<Rightarrow> Inl (ValueError (InvalidLiteral s)))
          else Inr (py_int 10 s))"

text \<open>
  The group \<open>\s*(.+?)\s*\<close> matched against the whole of a text: the text without the
  blanks around it, or its last character when it is all blanks.
\<close>

definition lazy_group :: "string \<Rightarrow> string option" where
  "lazy_group body =
     (let x = dropWhile isspace body in
      if x \<noteq> [] then Some (rstrip x)
      else if body \<noteq> [] then Some [last body]
      else None)"

text \<open>
  \<open>RE_INDEXED\<close>, \<open>^\[\s*(R[01])\s*(?:\+\s*(.+?))?\s*\]$\<close> ignoring case: groups 1 and
  2 of the match.
\<close>

definition RE_INDEXED :: "string \<Rightarrow> (string \<times> string option) option" where
  "RE_INDEXED text =
     (if length text \<ge> 2 \<and> hd text = CHR ''['' \<and> last text = CHR '']'' then
        (case dropWhile isspace (butlast (tl text)) of
           r0 # d # rest \<Rightarrow>
             if (r0 = CHR ''R'' \<or> r0 = CHR ''r'') \<and> (d = CHR ''0'' \<or> d = CHR ''1'') then
               (case dropWhile isspace rest of
                  [] \<Rightarrow> Some ([r0, d], None)
                | p # content \<Rightarrow>
                    if p = CHR ''+'' then
                      (case lazy_group content of
                         Some g \<Rightarrow> Some ([r0, d], Some g)
                       | None \<Rightarrow> None)
                    else None)
             else None
         | _ \<Rightarrow> None)
      else None)"

text \<open>\<open>RE_DIRECT\<close>, \<open>^\[\s*(.+?)\s*\]$\<close>: group 1 of the match.\<close>

definition RE_DIRECT :: "string \<Rightarrow> string option" where
  "RE_DIRECT text =
     (if length text \<ge> 2 \<and> hd text = CHR ''['' \<and> last text = CHR '']''
      then lazy_group (butlast (tl text))
      else None)"

text \<open>\<open>RE_IMMEDIATE\<close>, \<open>^#\s*(.+)$\<close>: group 1 of the match.\<close>

definition RE_IMMEDIATE :: "string \<Rightarrow> string option" where
  "RE_IMMEDIATE text =
     (case text of
        [] \<Rightarrow> None
      | h # rest \<Rightarrow>
          if h = CHR ''#'' then
            (let x = dropWhile isspace rest in
             if x \<noteq> [] then Some x
             else if rest \<noteq> [] then Some [last rest]
             else None)
          else None)"

text \<open>
  The third component of what \<open>parse_operand\<close> returns is an integer, a symbol name
  that is not resolved yet, or \<open>None\<close>.
\<close>

datatype pyval = VNone | VInt int | VStr string

definition num_or_name :: "string \<Rightarrow> int option \<Rightarrow> pyval" where
  "num_or_name name v = (case v of None \<Rightarrow> VStr name | Some n \<Rightarrow> VInt n)"

definition parse_operand ::
  "string \<Rightarrow> (string \<times> int) list \<Rightarrow> exn + (string \<times> string option \<times> pyval)" where
  "parse_operand text0 symbols =
     (let text = strip text0; up = upper text in
      if up \<in> REGISTER_NAMES then Inr (''reg'', Some up, VNone)
      else
        (case RE_INDEXED text of
           Some (g1, g2) \<Rightarrow>
             (let reg = upper g1 in
              case g2 of
                Some g \<Rightarrow>
                  andthen (parse_number g symbols)
                    (\<lambda>v. Inr (''indexed'', Some reg, num_or_name g v))
              | None \<Rightarrow> Inr (''indexed'', Some reg, VInt 0))
         | None \<Rightarrow>
        (case RE_DIRECT text of
           Some g \<Rightarrow>
             andthen (parse_number g symbols)
               (\<lambda>v. Inr (''direct'', None, num_or_name g v))
         | None \<Rightarrow>
        (case RE_IMMEDIATE text of
           Some g \<Rightarrow>
             andthen (parse_number g symbols)
               (\<lambda>v. Inr (''imm'', None, num_or_name g v))
         | None \<Rightarrow>
             andthen (parse_number text symbols)
               (\<lambda>v. Inr (''value'', None, num_or_name text v))))))"

section \<open>Assembler: line parsing\<close>

definition strip_comment :: "string \<Rightarrow> string" where
  "strip_comment line = takeWhile (\<lambda>x. x \<noteq> CHR '';'') line"

definition is_letter_us :: "char \<Rightarrow> bool" where
  "is_letter_us ch =
     (let k = py_ord ch in (65 \<le> k \<and> k \<le> 90) \<or> (97 \<le> k \<and> k \<le> 122) \<or> ch = CHR ''_'')"

definition is_word :: "char \<Rightarrow> bool" where
  "is_word ch = (is_letter_us ch \<or> (48 \<le> py_ord ch \<and> py_ord ch \<le> 57))"

text \<open>
  \<open>re.match(r"^([A-Za-z_]\w*)\s*:", line)\<close>: the label and the text after the match.
\<close>

definition label_match :: "string \<Rightarrow> (string \<times> string) option" where
  "label_match line =
     (case line of
        [] \<Rightarrow> None
      | h # rest \<Rightarrow>
          if is_letter_us h then
            (case dropWhile isspace (dropWhile is_word rest) of
               [] \<Rightarrow> None
             | p # after \<Rightarrow>
                 if p = CHR '':'' then Some (h # takeWhile is_word rest, after) else None)
          else None)"

definition parse_line :: "string \<Rightarrow> string option \<times> string option \<times> string option" where
  "parse_line raw_line =
     (let line0 = strip (strip_comment raw_line) in
      if line0 = [] then (None, None, None)
      else
        let (label, line) =
              (case label_match line0 of
                 Some (l, after) \<Rightarrow> (Some l, strip after)
               | None \<Rightarrow> (None, line0))
        in if line = [] then (label, None, None)
           else (case split_ws1 line of
                   [] \<Rightarrow> (label, None, None)
                 | [m] \<Rightarrow> (label, Some (upper m), None)
                 | m # rest # _ \<Rightarrow> (label, Some (upper m), Some (strip rest))))"

section \<open>Assembler: state and diagnostics\<close>

text \<open>
  The messages of \<open>AssemblerError\<close>, with the values they format; \<open>Message m\<close> is
  \<open>str(e)\<close> of a caught ValueError.
\<close>

datatype asm_msg =
    DuplicateLabel string
  | InvalidOrgAddress
  | InvalidEquValue string
  | InvalidEquSyntax
  | UndefinedSymbol string
  | DSRequiresString
  | FirstOperand string "string option"
  | SecondOperand string string
  | RequiresAddress string
  | RequiresTarget string
  | BranchRange int
  | RequiresOperand string
  | UnknownInstruction string
  | AddressExceeds int
  | Message value_msg

text \<open>
  The fields of class \<open>Assembler\<close> (\<open>pc_asm\<close> is its \<open>pc\<close>); an entry of \<open>errors\<close> is
  the line number and the message.
\<close>

record assembler =
  symbols :: "(string \<times> int) list"
  pc_asm :: int
  errors :: "(nat \<times> asm_msg) list"

definition Assembler_init :: assembler where
  "Assembler_init = \<lparr> symbols = [], pc_asm = 0, errors = [] \<rparr>"

definition error :: "assembler \<Rightarrow> nat \<Rightarrow> asm_msg \<Rightarrow> assembler" where
  "error st line_num msg = st\<lparr>errors := errors st @ [(line_num, msg)]\<rparr>"

definition resolve :: "assembler \<Rightarrow> pyval \<Rightarrow> nat \<Rightarrow> pyval \<times> assembler" where
  "resolve st value_or_sym line_num =
     (case value_or_sym of
        VStr name \<Rightarrow>
          (case map_of (symbols st) name of
             Some n \<Rightarrow> (VInt n, st)
           | None \<Rightarrow> (VInt 0, error st line_num (UndefinedSymbol name)))
      | _ \<Rightarrow> (value_or_sym, st))"

text \<open>\<open>if operand_text:\<close> holds for text that is neither \<open>None\<close> nor empty.\<close>

definition truthy :: "string option \<Rightarrow> bool" where
  "truthy operand_text = (operand_text \<noteq> None \<and> operand_text \<noteq> Some [])"

definition parse_ld_st_operand :: "string option \<Rightarrow> string option \<times> string option" where
  "parse_ld_st_operand operand_text =
     (case operand_text of
        None \<Rightarrow> (None, None)
      | Some text \<Rightarrow>
          (case split_sep1 CHR '','' text of
             [p0] \<Rightarrow> (Some (upper (strip p0)), None)
           | p0 # p1 # _ \<Rightarrow> (Some (upper (strip p0)), Some (strip p1))
           | [] \<Rightarrow> (None, None)))"

definition operand_size :: "string option \<Rightarrow> exn + int" where
  "operand_size operand_text =
     (case operand_text of
        None \<Rightarrow> Inr 1
      | Some text \<Rightarrow>
          andthen (parse_operand text [])
            (\<lambda>(mode, _, _). Inr (if mode = ''reg'' then 1 else 2)))"

definition is_quoted_item :: "string \<Rightarrow> bool" where
  "is_quoted_item item = (startswith item [CHR 0x22] \<or> startswith item [CHR 0x27])"

definition is_quoted_string :: "string \<Rightarrow> bool" where
  "is_quoted_string s =
     ((startswith s [CHR 0x22] \<and> endswith s [CHR 0x22]) \<or>
      (startswith s [CHR 0x27] \<and> endswith s [CHR 0x27]))"

text \<open>\<open>s[1:-1]\<close>\<close>

definition inner :: "string \<Rightarrow> string" where
  "inner s = butlast (tl s)"

section \<open>Assembler: pass 1\<close>

definition instruction_size :: "string \<Rightarrow> string option \<Rightarrow> exn + int" where
  "instruction_size mnemonic operand_text =
     (if mnemonic = ''.ORG'' then Inr 0
      else if mnemonic = ''.EQU'' then Inr 0
      else if mnemonic = ''.DB'' then
        (if truthy operand_text then
           Inr (sum_list
                  (map (\<lambda>item. if is_quoted_item item
                                then int (length (strip_chars item [CHR 0x22, CHR 0x27]))
                                else 1)
                       (map strip (split_sep CHR '','' (the operand_text)))))
         else Inr 0)
      else if mnemonic = ''.DS'' then
        (if truthy operand_text then
           (let s = strip (the operand_text) in
            if is_quoted_string s
            then andthen (decode_string (inner s)) (\<lambda>bs. Inr (int (length bs) + 1))
            else Inr 1)
         else Inr 1)
      else if mnemonic = ''LD'' \<or> mnemonic = ''ST'' then
        (case parse_ld_st_operand operand_text of
           (reg, None) \<Rightarrow> Inr 1
         | (reg, Some src_text) \<Rightarrow> operand_size (Some src_text))
      else if truthy operand_text \<and>
              FIXED_OPCODES (mnemonic @ '' '' @ upper (strip (the operand_text))) \<noteq> None
        then Inr 1
      else if FIXED_OPCODES mnemonic \<noteq> None then
        (if mnemonic \<in> NO_OPERAND then Inr 1 else Inr 2)
      else if ALU_INSTRUCTIONS mnemonic \<noteq> None then
        (case operand_text of
           None \<Rightarrow> Inr 1
         | Some text \<Rightarrow> operand_size (Some text))
      else Inr 1)"

text \<open>The body of the loop of \<open>pass1\<close> for one line.\<close>

definition pass1_line :: "assembler \<Rightarrow> nat \<Rightarrow> string \<Rightarrow> exn + assembler" where
  "pass1_line st0 line_num raw_line =
     (case parse_line raw_line of (label, mnemonic, operand_text) \<Rightarrow>
      let st = (case label of
                  None \<Rightarrow> st0
                | Some l \<Rightarrow>
                    if l = [] then st0
                    else if map_of (symbols st0) l \<noteq> None
                    then error st0 line_num (DuplicateLabel l)
                    else st0\<lparr>symbols := AList.update l (pc_asm st0) (symbols st0)\<rparr>)
      in
      case mnemonic of
        None \<Rightarrow> Inr st
      | Some m \<Rightarrow>
          if m = ''.ORG'' then
            andthen (if truthy operand_text
                     then parse_number (the operand_text) (symbols st)
                     else Inr None)
              (\<lambda>v. case v of
                      None \<Rightarrow> Inr (error st line_num InvalidOrgAddress)
                    | Some n \<Rightarrow> Inr (st\<lparr>pc_asm := n\<rparr>))
          else if m = ''.EQU'' then
            (if truthy operand_text then
               (case map strip (split_sep1 CHR '','' (the operand_text)) of
                  [name, vtext] \<Rightarrow>
                    andthen (parse_number vtext (symbols st))
                      (\<lambda>v. case v of
                              None \<Rightarrow> Inr (error st line_num (InvalidEquValue vtext))
                            | Some n \<Rightarrow>
                                Inr (st\<lparr>symbols := AList.update name n (symbols st)\<rparr>))
                | _ \<Rightarrow> Inr (error st line_num InvalidEquSyntax))
             else Inr st)
          else
            andthen (instruction_size m operand_text)
              (\<lambda>size. Inr (st\<lparr>pc_asm := pc_asm st + size\<rparr>)))"

fun pass1_loop :: "assembler \<Rightarrow> nat \<Rightarrow> string list \<Rightarrow> exn + assembler" where
  "pass1_loop st line_num [] = Inr st"
| "pass1_loop st line_num (raw_line # rest) =
     andthen (pass1_line st line_num raw_line) (\<lambda>st'. pass1_loop st' (Suc line_num) rest)"

definition pass1 :: "assembler \<Rightarrow> string list \<Rightarrow> exn + assembler" where
  "pass1 st lines = pass1_loop (st\<lparr>pc_asm := 0\<rparr>) 1 lines"

section \<open>Assembler: pass 2\<close>

text \<open>The \<open>for item in items\<close> loop of the \<open>.DB\<close> arm.\<close>

fun db_items :: "assembler \<Rightarrow> nat \<Rightarrow> string list \<Rightarrow> exn + (assembler \<times> int list)" where
  "db_items st line_num [] = Inr (st, [])"
| "db_items st line_num (item # items) =
     (if is_quoted_item item then
        andthen (db_items st line_num items)
          (\<lambda>(st', bs). Inr (st', map py_ord (strip_chars item [CHR 0x22, CHR 0x27]) @ bs))
      else
        andthen (parse_number item (symbols st))
          (\<lambda>v. let (n, st1) =
                      (case v of
                         Some n \<Rightarrow> (n, st)
                       | None \<Rightarrow>
                           (case resolve st (VStr item) line_num of
                              (VInt n, st1) \<Rightarrow> (n, st1)
                            | (_, st1) \<Rightarrow> (0, st1)))
                in andthen (db_items st1 line_num items)
                     (\<lambda>(st', bs). Inr (st', (n AND 0xFF) # bs))))"

text \<open>
  What \<open>val\<close> is when it reaches the encoder: a name is resolved, \<open>None\<close> becomes 0.
\<close>

definition operand_value :: "assembler \<Rightarrow> pyval \<Rightarrow> nat \<Rightarrow> int \<times> assembler" where
  "operand_value st v line_num =
     (case v of
        VNone \<Rightarrow> (0, st)
      | VInt n \<Rightarrow> (n, st)
      | VStr name \<Rightarrow>
          (case resolve st (VStr name) line_num of
             (VInt n, st1) \<Rightarrow> (n, st1)
           | (_, st1) \<Rightarrow> (0, st1)))"

text \<open>
  The \<open>try\<close> around an encoder call: a ValueError becomes a diagnostic and one zero
  byte, another exception propagates.
\<close>

definition emit_encoded ::
  "assembler \<Rightarrow> nat \<Rightarrow> exn + (int \<times> int option) \<Rightarrow> exn + (assembler \<times> int list)" where
  "emit_encoded st line_num enc =
     (case enc of
        Inr (opcode, operand) \<Rightarrow>
          Inr (st, (case operand of None \<Rightarrow> [opcode] | Some b \<Rightarrow> [opcode, b]))
      | Inl (ValueError m) \<Rightarrow> Inr (error st line_num (Message m), [0])
      | Inl e \<Rightarrow> Inl e)"

text \<open>
  The arms of \<open>pass2\<close> from \<open>.DB\<close> to the last \<open>else\<close>: the state with the diagnostics
  of the line, and the bytes the line emits.
\<close>

definition encode_line ::
  "assembler \<Rightarrow> nat \<Rightarrow> int \<Rightarrow> string \<Rightarrow> string option \<Rightarrow> exn + (assembler \<times> int list)" where
  "encode_line st line_num start_pc mnemonic operand_text =
     (if mnemonic = ''.DB'' then
        (if truthy operand_text
         then db_items st line_num (map strip (split_sep CHR '','' (the operand_text)))
         else Inr (st, []))
      else if mnemonic = ''.DS'' then
        (if truthy operand_text then
           (let s = strip (the operand_text) in
            if is_quoted_string s then
              (case decode_string (inner s) of
                 Inr bs \<Rightarrow> Inr (st, bs @ [0x00])
               | Inl (ValueError m) \<Rightarrow> Inr (error st line_num (Message m), [0x00])
               | Inl e \<Rightarrow> Inl e)
            else Inr (error st line_num DSRequiresString, [0x00]))
         else Inr (error st line_num DSRequiresString, [0x00]))
      else if mnemonic = ''LD'' \<or> mnemonic = ''ST'' then
        (let is_store = (mnemonic = ''ST'') in
         case parse_ld_st_operand operand_text of (reg, src_text) \<Rightarrow>
           if reg = None \<or> the reg \<notin> REGISTER_NAMES then
             Inr (error st line_num (FirstOperand mnemonic reg), [0])
           else if src_text = None then
             Inr (error st line_num (SecondOperand mnemonic (the reg)), [0])
           else
             andthen (parse_operand (the src_text) (symbols st))
               (\<lambda>(mode0, other_reg, v).
                  let mode = (if mode0 = ''value''
                              then (if is_store then ''direct'' else ''imm'')
                              else mode0);
                      (n, st1) = operand_value st v line_num
                  in emit_encoded st1 line_num
                       (encode_ld_st is_store (the reg) mode other_reg n)))
      else if truthy operand_text \<and>
              FIXED_OPCODES (mnemonic @ '' '' @ upper (strip (the operand_text))) \<noteq> None then
        Inr (st, [the (FIXED_OPCODES (mnemonic @ '' '' @ upper (strip (the operand_text))))])
      else if mnemonic \<in> NO_OPERAND \<and> FIXED_OPCODES mnemonic \<noteq> None then
        Inr (st, [the (FIXED_OPCODES mnemonic)])
      else if mnemonic = ''JMP'' \<or> mnemonic = ''CALL'' then
        (case FIXED_OPCODES mnemonic of
           None \<Rightarrow> Inl KeyError
         | Some opcode \<Rightarrow>
             (case operand_text of
                None \<Rightarrow> Inr (error st line_num (RequiresAddress mnemonic), [opcode, 0])
              | Some text \<Rightarrow>
                  andthen (parse_operand text (symbols st))
                    (\<lambda>(_, _, v).
                       case resolve st v line_num of
                         (VInt n, st1) \<Rightarrow> Inr (st1, [opcode, n AND 0xFF])
                       | (_, st1) \<Rightarrow> Inl TypeError)))
      else if mnemonic \<in> BRANCH_INSTRUCTIONS then
        (case FIXED_OPCODES mnemonic of
           None \<Rightarrow> Inl KeyError
         | Some opcode \<Rightarrow>
             (case operand_text of
                None \<Rightarrow> Inr (error st line_num (RequiresTarget mnemonic), [opcode, 0])
              | Some text \<Rightarrow>
                  andthen (parse_operand text (symbols st))
                    (\<lambda>(_, _, v).
                       case resolve st v line_num of
                         (VInt target, st1) \<Rightarrow>
                           (let disp = target - (start_pc + 2) in
                            if disp < - 128 \<or> disp > 127
                            then Inr (error st1 line_num (BranchRange disp),
                                      [opcode, 0 AND 0xFF])
                            else Inr (st1, [opcode, disp AND 0xFF]))
                       | (_, st1) \<Rightarrow> Inl TypeError)))
      else if ALU_INSTRUCTIONS mnemonic \<noteq> None then
        (case operand_text of
           None \<Rightarrow> Inr (error st line_num (RequiresOperand mnemonic), [0])
         | Some text \<Rightarrow>
             andthen (parse_operand text (symbols st))
               (\<lambda>(mode0, reg, v).
                  let mode = (if mode0 = ''value'' then ''imm'' else mode0);
                      (n, st1) = operand_value st v line_num
                  in emit_encoded st1 line_num (encode_alu mnemonic mode reg n)))
      else Inr (error st line_num (UnknownInstruction mnemonic), [0]))"

text \<open>The loop that writes the emitted bytes to \<open>output\<close>, from \<open>addr = start_pc\<close>.\<close>

fun write_emitted ::
  "assembler \<Rightarrow> nat \<Rightarrow> int \<Rightarrow> (int \<times> int) list \<Rightarrow> int list \<Rightarrow> assembler \<times> (int \<times> int) list" where
  "write_emitted st line_num addr output [] = (st, output)"
| "write_emitted st line_num addr output (b # bs) =
     (if addr > 0xFF then (error st line_num (AddressExceeds addr), output)
      else write_emitted st line_num (addr + 1) (AList.update addr b output) bs)"

text \<open>
  The state of the loop of \<open>pass2\<close>: the assembler, the \<open>output\<close> dict (\<open>output_dict\<close>) and the listing,
  an entry of which is the address (or \<open>None\<close>), the bytes and the source line.
\<close>

record pass2_state =
  asm :: assembler
  output_dict :: "(int \<times> int) list"
  listing :: "(int option \<times> int list \<times> string) list"

definition pass2_line :: "pass2_state \<Rightarrow> nat \<Rightarrow> string \<Rightarrow> exn + pass2_state" where
  "pass2_line ps line_num raw_line =
     (case parse_line raw_line of (label, mnemonic, operand_text) \<Rightarrow>
      case mnemonic of
        None \<Rightarrow> Inr (ps\<lparr>listing := listing ps @ [(None, [], raw_line)]\<rparr>)
      | Some m \<Rightarrow>
          if m = ''.ORG'' then
            andthen (if truthy operand_text
                     then parse_number (the operand_text) (symbols (asm ps))
                     else Inr (Some 0))
              (\<lambda>v. let st = (case v of
                                None \<Rightarrow> asm ps
                              | Some n \<Rightarrow> (asm ps)\<lparr>pc_asm := n\<rparr>)
                    in Inr (ps\<lparr>asm := st,
                               listing := listing ps @ [(Some (pc_asm st), [], raw_line)]\<rparr>))
          else if m = ''.EQU'' then
            Inr (ps\<lparr>listing := listing ps @ [(None, [], raw_line)]\<rparr>)
          else
            (let start_pc = pc_asm (asm ps) in
             andthen (encode_line (asm ps) line_num start_pc m operand_text)
               (\<lambda>(st1, emitted).
                  let (st2, out2) = write_emitted st1 line_num start_pc (output_dict ps) emitted
                  in Inr (ps\<lparr>asm := st2\<lparr>pc_asm := start_pc + int (length emitted)\<rparr>,
                             output_dict := out2,
                             listing := listing ps @ [(Some start_pc, emitted, raw_line)]\<rparr>))))"

fun pass2_loop :: "pass2_state \<Rightarrow> nat \<Rightarrow> string list \<Rightarrow> exn + pass2_state" where
  "pass2_loop ps line_num [] = Inr ps"
| "pass2_loop ps line_num (raw_line # rest) =
     andthen (pass2_line ps line_num raw_line) (\<lambda>ps'. pass2_loop ps' (Suc line_num) rest)"

definition pass2 :: "assembler \<Rightarrow> string list \<Rightarrow> exn + pass2_state" where
  "pass2 st lines =
     pass2_loop \<lparr> asm = st\<lparr>pc_asm := 0\<rparr>, output_dict = [], listing = [] \<rparr> 1 lines"

text \<open>
  \<open>str.splitlines\<close>: a line ends at \<open>\n\<close>, \<open>\r\<close>, \<open>\r\n\<close>, \<open>\v\<close>, \<open>\f\<close>, \<open>\x1c\<close>,
  \<open>\x1d\<close>, \<open>\x1e\<close> or \<open>\x85\<close>; no empty last line after a final line end.
\<close>

definition is_linebreak :: "char \<Rightarrow> bool" where
  "is_linebreak ch = (py_ord ch \<in> {10, 11, 12, 13, 28, 29, 30, 0x85})"

definition after_break :: "char \<Rightarrow> string \<Rightarrow> string" where
  "after_break ch xs =
     (if ch = CHR 0x0D \<and> xs \<noteq> [] \<and> hd xs = CHR 0x0A then tl xs else xs)"

lemma length_after_break: "length (after_break ch xs) \<le> length xs"
  by (simp add: after_break_def)

function splitlines :: "string \<Rightarrow> string list" where
  "splitlines [] = []"
| "splitlines (x # xs) =
     (if is_linebreak x then [] # splitlines (after_break x xs)
      else (case splitlines xs of
              [] \<Rightarrow> [[x]]
            | l # ls \<Rightarrow> (x # l) # ls))"
  by pat_completeness auto
termination
  by (relation "measure length") (auto simp: length_after_break less_Suc_eq_le)

text \<open>
  \<open>assemble\<close>: the assembler after the passes, and the output and the listing, which
  are \<open>None\<close> when pass 1 reported an error.
\<close>

definition assemble ::
  "assembler \<Rightarrow> string \<Rightarrow> exn + (assembler \<times> pass2_state option)" where
  "assemble st source_text =
     (let lines = splitlines source_text in
      andthen (pass1 st lines)
        (\<lambda>st1. if errors st1 \<noteq> [] then Inr (st1, None)
               else andthen (pass2 st1 lines) (\<lambda>ps. Inr (asm ps, Some ps))))"

section \<open>Object-file codecs: text helpers\<close>

text \<open>
  \<open>f"{b:02X}"\<close>: upper-case hexadecimal digits, padded with a zero to two characters;
  a negative number has a minus sign before its digits.
\<close>

definition hex_digit :: "int \<Rightarrow> char" where
  "hex_digit n = ''0123456789ABCDEF'' ! nat n"

function hex_digits :: "int \<Rightarrow> string" where
  "hex_digits n = (if n < 16 then [hex_digit n] else hex_digits (n div 16) @ [hex_digit (n mod 16)])"
  by pat_completeness auto
termination
  by (relation "measure nat") auto

definition format_02X :: "int \<Rightarrow> string" where
  "format_02X b =
     (if b < 0 then CHR ''-'' # hex_digits (- b)
      else let d = hex_digits b in if length d < 2 then CHR ''0'' # d else d)"

text \<open>
  \<open>bytes.fromhex(s)\<close>: pairs of hexadecimal digits, with ASCII blanks allowed between
  the pairs. \<open>None\<close> stands for the ValueError.
\<close>

definition is_ascii_space :: "char \<Rightarrow> bool" where
  "is_ascii_space ch = (py_ord ch \<in> {9, 10, 11, 12, 13, 32})"

definition hex_val :: "char \<Rightarrow> int option" where
  "hex_val ch =
     (let k = py_ord ch in
      if 48 \<le> k \<and> k \<le> 57 then Some (k - 48)
      else if 97 \<le> k \<and> k \<le> 102 then Some (k - 97 + 10)
      else if 65 \<le> k \<and> k \<le> 70 then Some (k - 65 + 10)
      else None)"

fun fromhex :: "string \<Rightarrow> int list option" where
  "fromhex [] = Some []"
| "fromhex [x] = (if is_ascii_space x then Some [] else None)"
| "fromhex (x # y # rest) =
     (if is_ascii_space x then fromhex (y # rest)
      else (case hex_val x of
              None \<Rightarrow> None
            | Some hi \<Rightarrow>
                (case hex_val y of
                   None \<Rightarrow> None
                 | Some lo \<Rightarrow> map_option ((#) (hi * 16 + lo)) (fromhex rest))))"

text \<open>\<open>"\n".join(lines)\<close>\<close>

fun join_nl :: "string list \<Rightarrow> string" where
  "join_nl [] = []"
| "join_nl [l] = l"
| "join_nl (l # ls) = l @ CHR 0x0A # join_nl ls"

section \<open>Object-file codecs: the encoders of the assembler\<close>

text \<open>
  Both encoders walk the sorted addresses with the same pair of loops: the inner one
  gathers the bytes of up to 16 consecutive addresses from \<open>base\<close> on. \<open>gather\<close> is
  the inner loop (it returns the data and the addresses that are left), \<open>runs\<close> the
  outer one, giving the base and the data of each record. The addresses are keys of
  \<open>output\<close>, so \<open>output[addrs[i]]\<close> finds its key.
\<close>

fun gather :: "(int \<times> int) list \<Rightarrow> int \<Rightarrow> int list \<Rightarrow> int list \<Rightarrow> int list \<times> int list" where
  "gather output base data [] = (data, [])"
| "gather output base data (x # xs) =
     (if x = base + int (length data) \<and> length data < 16
      then gather output base (data @ [the (map_of output x)]) xs
      else (data, x # xs))"

lemma gather_rest_length: "length (snd (gather output base data xs)) \<le> length xs"
  by (induction xs arbitrary: data) (auto intro: le_SucI)

function runs :: "(int \<times> int) list \<Rightarrow> int list \<Rightarrow> (int \<times> int list) list" where
  "runs output [] = []"
| "runs output (base # rest) =
     (case gather output base [] (base # rest) of
        (data, rest') \<Rightarrow> (base, data) # runs output rest')"
  by pat_completeness auto
termination
proof (relation "measure (\<lambda>(output, addrs). length addrs)", goal_cases)
  case 1
  show ?case by simp
next
  case (2 od base rest data rest')
  then have "rest' = snd (gather od base [the (map_of od base)] rest)"
    by (simp add: prod_eq_iff)
  then have "length rest' \<le> length rest"
    by (simp add: gather_rest_length)
  then show ?case
    by simp
qed

definition hex_record :: "int \<Rightarrow> int list \<Rightarrow> string" where
  "hex_record base data =
     (let addr_hi = drop_bit 8 base AND 0xFF;
          addr_lo = base AND 0xFF;
          record = [int (length data), addr_hi, addr_lo, 0x00] @ data;
          checksum = (NOT (sum_list record) + 1) AND 0xFF
      in CHR '':'' # concat (map format_02X record) @ format_02X checksum)"

definition generate_hex :: "(int \<times> int) list \<Rightarrow> string" where
  "generate_hex output =
     (if output = [] then '':00000001FF'' @ [CHR 0x0A]
      else join_nl (map (\<lambda>(base, data). hex_record base data)
                        (runs output (sort (map fst output)))
                    @ ['':00000001FF''])
           @ [CHR 0x0A])"

text \<open>An S-record line: the type, the bytes, and the complement of their sum.\<close>

definition srec_line :: "string \<Rightarrow> int list \<Rightarrow> string" where
  "srec_line tag bytes =
     tag @ concat (map format_02X bytes) @ format_02X (NOT (sum_list bytes) AND 0xFF)"

definition srec_record :: "int \<Rightarrow> int list \<Rightarrow> string" where
  "srec_record base data =
     (let count = 2 + int (length data) + 1;
          addr_hi = drop_bit 8 base AND 0xFF;
          addr_lo = base AND 0xFF
      in srec_line ''S1'' ([count, addr_hi, addr_lo] @ data))"

definition generate_srec :: "(int \<times> int) list \<Rightarrow> string" where
  "generate_srec output =
     (let header_data = map py_ord ''EDU-CPU'';
          s0_count = 2 + 1 + int (length header_data);
          s0 = srec_line ''S0'' ([s0_count, 0x00, 0x00] @ header_data);
          s1 = (if output \<noteq> []
                then map (\<lambda>(base, data). srec_record base data)
                         (runs output (sort (map fst output)))
                else []);
          s9 = srec_line ''S9'' [0x03, 0x00, 0x00]
      in join_nl ([s0] @ s1 @ [s9]) @ [CHR 0x0A])"

section \<open>Object-file codecs: the parsers of the simulator\<close>

text \<open>
  \<open>for i, b in enumerate(data): a = addr + i; if a < 256: result[a] = b\<close>, the loop
  both parsers end a data record with.
\<close>

fun store_data :: "(int \<times> int) list \<Rightarrow> int \<Rightarrow> int list \<Rightarrow> (int \<times> int) list" where
  "store_data result addr [] = result"
| "store_data result addr (b # bs) =
     store_data (if addr < 256 then AList.update addr b result else result) (addr + 1) bs"

fun parse_hex_loop :: "(int \<times> int) list \<Rightarrow> nat \<Rightarrow> string list \<Rightarrow> exn + (int \<times> int) list" where
  "parse_hex_loop result line_num [] = Inr result"
| "parse_hex_loop result line_num (line0 # rest) =
     (let line = strip line0 in
      if line = [] then parse_hex_loop result (Suc line_num) rest
      else if \<not> startswith line '':'' then Inl (ValueError (HexMissingStart line_num))
      else (case fromhex (tl line) of
              None \<Rightarrow> Inl (ValueError FromHex)
            | Some raw \<Rightarrow>
                if length raw < 5 then Inl (ValueError (HexTooShort line_num))
                else
                  let byte_count = raw ! 0;
                      addr = push_bit 8 (raw ! 1) OR raw ! 2;
                      rec_type = raw ! 3;
                      data = drop 4 (butlast raw);
                      checksum = last raw;
                      calc = (NOT (sum_list (butlast raw)) + 1) AND 0xFF
                  in if calc \<noteq> checksum
                     then Inl (ValueError (HexChecksum line_num calc checksum))
                     else if int (length data) \<noteq> byte_count
                     then Inl (ValueError (HexByteCount line_num))
                     else if rec_type = 0x01 then Inr result
                     else if rec_type = 0x00
                     then parse_hex_loop (store_data result addr data) (Suc line_num) rest
                     else parse_hex_loop result (Suc line_num) rest))"

definition parse_hex :: "string \<Rightarrow> exn + (int \<times> int) list" where
  "parse_hex text = parse_hex_loop [] 1 (splitlines text)"

fun parse_srec_loop :: "(int \<times> int) list \<Rightarrow> nat \<Rightarrow> string list \<Rightarrow> exn + (int \<times> int) list" where
  "parse_srec_loop result line_num [] = Inr result"
| "parse_srec_loop result line_num (line0 # rest) =
     (let line = strip line0 in
      if line = [] then parse_srec_loop result (Suc line_num) rest
      else if \<not> startswith line ''S'' then Inl (ValueError (SrecMissingS line_num))
      else
        andthen (py_getitem line 1) (\<lambda>rec_type.
          case fromhex (drop 2 line) of
            None \<Rightarrow> Inl (ValueError FromHex)
          | Some raw \<Rightarrow>
              if length raw < 1 then Inl (ValueError (SrecTooShort line_num))
              else
                let byte_count = raw ! 0 in
                if int (length raw) \<noteq> byte_count + 1
                then Inl (ValueError (SrecByteCount line_num))
                else
                  let calc = NOT (sum_list (butlast raw)) AND 0xFF in
                  if calc \<noteq> last raw
                  then Inl (ValueError (SrecChecksum line_num calc (last raw)))
                  else if rec_type = CHR ''0''
                  then parse_srec_loop result (Suc line_num) rest
                  else if rec_type = CHR ''1'' then
                    andthen (py_getitem raw 1) (\<lambda>hi.
                      andthen (py_getitem raw 2) (\<lambda>lo.
                        let addr = push_bit 8 hi OR lo;
                            data = drop 3 (butlast raw)
                        in parse_srec_loop (store_data result addr data) (Suc line_num) rest))
                  else if rec_type = CHR ''9'' then Inr result
                  else parse_srec_loop result (Suc line_num) rest))"

definition parse_srec :: "string \<Rightarrow> exn + (int \<times> int) list" where
  "parse_srec text = parse_srec_loop [] 1 (splitlines text)"

section \<open>Well-formed states and example programs\<close>

text \<open>
  Every field of a CPU that was built by \<open>CPU()\<close> and driven by \<open>load_map\<close> and
  \<open>step\<close> holds a byte, and the lists keep their lengths: the masks of the source
  see to it. \<open>cpu_ok\<close> states that as a predicate.
\<close>

definition byte :: "int \<Rightarrow> bool" where
  "byte v = (0 \<le> v \<and> v \<le> 255)"

definition cpu_ok :: "cpu \<Rightarrow> bool" where
  "cpu_ok s =
     (byte (a s) \<and> length (r s) = 2 \<and> list_all byte (r s) \<and> byte (pc s) \<and>
      0 \<le> sp s \<and> sp s \<le> STACK_DEPTH \<and>
      length (stack s) = nat STACK_DEPTH \<and> list_all byte (stack s) \<and>
      length (mem s) = 256 \<and> list_all byte (mem s))"

text \<open>The exceptions that the helpers below \<open>execute\<close> can raise.\<close>

fun helper_exn :: "exn \<Rightarrow> bool" where
  "helper_exn IndexError = True"
| "helper_exn KeyError = True"
| "helper_exn TypeError = True"
| "helper_exn (RuntimeError STImmediate) = True"
| "helper_exn (RuntimeError (StackOverflow n)) = True"
| "helper_exn (RuntimeError (StackUnderflow n)) = True"
| "helper_exn e = False"

definition is_pcu :: "exn \<Rightarrow> bool" where
  "is_pcu e = (\<exists>x. e = RuntimeError (PCUnloaded x))"

text \<open>
  Example machines: \<open>ADD #1\<close> at address 0 with \<open>A = 0xFF\<close>; a lone \<open>HLT\<close>;
  the bytes 0x94 and 0x93 (the INC group with bit 2 set, and with register code 3);
  a \<open>JMP\<close> whose operand byte was never loaded.
\<close>

definition ex_add_carry :: cpu where
  "ex_add_carry = CPU_init\<lparr>a := 255, mem := (replicate 256 0)[0 := 0x30, 1 := 1], loaded := {0, 1}\<rparr>"

definition ex_hlt :: cpu where
  "ex_hlt = CPU_init\<lparr>mem := (replicate 256 0)[0 := 0xA8], loaded := {0}\<rparr>"

definition ex_inc4 :: cpu where
  "ex_inc4 = CPU_init\<lparr>mem := (replicate 256 0)[0 := 0x94], loaded := {0}\<rparr>"

definition ex_inc3 :: cpu where
  "ex_inc3 = CPU_init\<lparr>mem := (replicate 256 0)[0 := 0x93], loaded := {0}\<rparr>"

definition ex_jmp :: cpu where
  "ex_jmp = CPU_init\<lparr>mem := (replicate 256 0)[0 := 0x60], loaded := {0}\<rparr>"

text \<open>
  What \<open>main\<close> looks at after \<open>Assembler().assemble(source)\<close>: the diagnostics and
  the listing (empty when pass 1 failed). \<open>ex_branch\<close> is the state of pass 2 before
  the line \<open>BNZ L\<close> at address 6, with \<open>L\<close> at address 4.
\<close>

definition assemble_result ::
  "string \<Rightarrow> exn + ((nat \<times> asm_msg) list \<times> (int option \<times> int list \<times> string) list)" where
  "assemble_result source_text =
     andthen (assemble Assembler_init source_text)
       (\<lambda>(st, r). Inr (errors st, case r of None \<Rightarrow> [] | Some ps \<Rightarrow> listing ps))"

definition ex_branch :: pass2_state where
  "ex_branch = \<lparr> asm = \<lparr> symbols = [(''L'', 4)], pc_asm = 6, errors = [] \<rparr>,
                  output_dict = [], listing = [] \<rparr>"

text \<open>
  An image with a run of four bytes from address 0, a byte at \<open>0x10\<close> and a byte at the
  last address, its keys not in order.
\<close>

definition ex_image :: "(int \<times> int) list" where
  "ex_image = [(0x10, 72), (0, 0), (1, 0x41), (2, 0x1A), (3, 0xFF), (255, 0xA8)]"

section \<open>Simulator: supporting lemmas\<close>

subsection \<open>The loaded set is only read by the check at the top of step\<close>

lemma andthen_map_sum: "andthen (map_sum id g m) f = andthen m (\<lambda>x. f (g x))"
  by (cases m) auto

lemma map_sum_andthen: "map_sum id g (andthen m f) = andthen m (\<lambda>x. map_sum id g (f x))"
  by (cases m) auto

lemma andthen_cong: "m = m' \<Longrightarrow> (\<And>x. m' = Inr x \<Longrightarrow> f x = g x) \<Longrightarrow> andthen m f = andthen m' g"
  by (cases m') auto

lemma fetch_loaded: "fetch (s\<lparr>loaded := L\<rparr>) = map_sum id (apsnd (loaded_update (\<lambda>_. L))) (fetch s)"
  by (auto simp add: fetch_def map_sum_andthen intro!: andthen_cong)

lemma mem_read_loaded: "mem_read (s\<lparr>loaded := L\<rparr>) x = mem_read s x"
  by (simp add: mem_read_def)

lemma mem_write_loaded: "mem_write (s\<lparr>loaded := L\<rparr>) x v = map_sum id (loaded_update (\<lambda>_. L)) (mem_write s x v)"
  by (auto simp add: mem_write_def map_sum_andthen Let_def intro!: andthen_cong)

lemma push_loaded: "push (s\<lparr>loaded := L\<rparr>) v = map_sum id (loaded_update (\<lambda>_. L)) (push s v)"
  by (auto simp add: push_def map_sum_andthen intro!: andthen_cong)

lemma pop_loaded: "pop (s\<lparr>loaded := L\<rparr>) = map_sum id (apsnd (loaded_update (\<lambda>_. L))) (pop s)"
  by (auto simp add: pop_def map_sum_andthen Let_def intro!: andthen_cong)

lemma get_reg_loaded: "get_reg (s\<lparr>loaded := L\<rparr>) x = get_reg s x"
  by (cases x) simp_all

lemma set_reg_loaded: "set_reg (s\<lparr>loaded := L\<rparr>) x v = map_sum id (loaded_update (\<lambda>_. L)) (set_reg s x v)"
  by (cases x) (auto simp add: map_sum_andthen intro!: andthen_cong)

lemma resolve_source_loaded: "resolve_source (s\<lparr>loaded := L\<rparr>) mm rb p = map_sum id (apsnd (loaded_update (\<lambda>_. L))) (resolve_source s mm rb p)"
  by (auto simp add: resolve_source_def fetch_loaded get_reg_loaded map_sum_andthen andthen_map_sum mem_read_loaded split_beta
       split: option.split intro!: andthen_cong)

lemma resolve_dest_loaded: "resolve_dest (s\<lparr>loaded := L\<rparr>) mm rb p v = map_sum id (loaded_update (\<lambda>_. L)) (resolve_dest s mm rb p v)"
  by (auto simp add: resolve_dest_def fetch_loaded set_reg_loaded map_sum_andthen andthen_map_sum mem_write_loaded split_beta
       split: option.split intro!: andthen_cong)

lemma alu_loaded: "alu m src (s\<lparr>loaded := L\<rparr>) = (alu m src s)\<lparr>loaded := L\<rparr>"
  by (simp add: alu_def Let_def set_zc_def set_z_clear_c_def)

lemma execute_loaded: "execute pcb opc (s\<lparr>loaded := L\<rparr>) = map_sum id (loaded_update (\<lambda>_. L)) (execute pcb opc s)"
  by (cases opc rule: execute_cases)
     (auto simp add: fetch_loaded get_reg_loaded set_reg_loaded resolve_source_loaded resolve_dest_loaded
      push_loaded pop_loaded alu_loaded set_z_only_def Let_def
      map_sum_andthen andthen_map_sum split_beta split: option.split intro!: andthen_cong)

subsection \<open>Masks as arithmetic\<close>

lemma and_255_mod: "(x::int) AND 255 = x mod 256"
  using take_bit_eq_mask[of 8 x] by (simp add: take_bit_eq_mod mask_eq_exp_minus_1)

lemma and_3_mod: "(x::int) AND 3 = x mod 4"
  using take_bit_eq_mask[of 2 x] by (simp add: take_bit_eq_mod mask_eq_exp_minus_1)

lemma and_1_mod: "(x::int) AND 1 = x mod 2"
  using take_bit_eq_mask[of 1 x] by (simp add: take_bit_eq_mod mask_eq_exp_minus_1)

lemma and_31_mod: "(x::int) AND 31 = x mod 32"
  using take_bit_eq_mask[of 5 x] by (simp add: take_bit_eq_mod mask_eq_exp_minus_1)

lemma bit8_carry: "0 \<le> x \<Longrightarrow> x < 512 \<Longrightarrow> (x AND 256 \<noteq> 0) = (256 \<le> (x::int))"
proof -
  assume a: "0 \<le> x" "x < 512"
  have "(x AND 2 ^ 8 = 0) = (\<not> bit x 8)"
    by (rule and_exp_eq_0_iff_not_bit)
  moreover have "bit x 8 = odd (x div 256)"
    by (simp add: bit_iff_odd)
  moreover have "odd (x div 256) = (256 \<le> x)"
  proof (cases "256 \<le> x")
    case True
    then have "x div 256 = (x - 256) div 256 + 1" by (simp add: div_pos_geq)
    with a True show ?thesis by simp
  next
    case False
    with a show ?thesis by simp
  qed
  ultimately show ?thesis by simp
qed

lemma byte_and: "0 \<le> x \<Longrightarrow> x \<le> 255 \<Longrightarrow> 0 \<le> y \<Longrightarrow> 0 \<le> (x AND y) \<and> (x AND y) \<le> (255::int)"
  using AND_upper1[of x y] by simp

lemma byte_or: "0 \<le> x \<Longrightarrow> x \<le> 255 \<Longrightarrow> 0 \<le> y \<Longrightarrow> y \<le> 255 \<Longrightarrow> 0 \<le> (x OR y) \<and> (x OR y) \<le> (255::int)"
  using OR_upper[of x 8 y] by simp

lemma byte_xor: "0 \<le> x \<Longrightarrow> x \<le> 255 \<Longrightarrow> 0 \<le> y \<Longrightarrow> y \<le> 255 \<Longrightarrow> 0 \<le> (x XOR y) \<and> (x XOR y) \<le> (255::int)"
  using XOR_upper[of x 8 y] by simp

subsection \<open>Well-formed states\<close>

lemma andthen_InlE: "andthen m f = Inl e \<Longrightarrow> (m = Inl e \<Longrightarrow> P) \<Longrightarrow> (\<And>x. m = Inr x \<Longrightarrow> f x = Inl e \<Longrightarrow> P) \<Longrightarrow> P"
  by (cases m) auto

lemma byte_and255: "byte (x AND 255)"
  by (simp add: byte_def and_255_mod)

lemma py_getitem_byte: "list_all byte xs \<Longrightarrow> py_getitem xs i = Inr v \<Longrightarrow> byte v"
  by (auto simp: py_getitem_def Let_def list_all_length split: if_splits)

lemma py_getitem_ok: "0 \<le> i \<Longrightarrow> i < int (length xs) \<Longrightarrow> py_getitem xs i = Inr (xs ! nat i)"
  by (simp add: py_getitem_def)

lemma py_getitem_in:
  assumes "0 \<le> i" "i < int (length xs)" "list_all P xs"
  shows "\<exists>v. py_getitem xs i = Inr v \<and> P v"
proof -
  from assms have "nat i < length xs" by simp
  with assms(3) have "P (xs ! nat i)" by (simp add: list_all_length)
  with assms show ?thesis by (simp add: py_getitem_def)
qed

lemma LD_dom: "LD_OPCODES i = Some x \<Longrightarrow> i \<in> {0, 1, 2}"
  by (simp add: LD_OPCODES_def split: if_splits)

lemma ST_dom: "ST_OPCODES i = Some x \<Longrightarrow> i \<in> {3, 4, 5}"
  by (simp add: ST_OPCODES_def split: if_splits)

lemma ALU_dom: "ALU_OPCODES i = Some x \<Longrightarrow> i \<in> {6, 7, 8, 9, 10, 11}"
  by (simp add: ALU_OPCODES_def split: if_splits)

lemma BR_dom: "BRANCH_CONDITION opc = Some x \<Longrightarrow> drop_bit 3 opc AND 0x1F = 13"
  by (auto simp add: BRANCH_CONDITION_def split: if_splits)

lemma fetch_ok:
  assumes "cpu_ok s"
  shows "\<exists>v. fetch s = Inr (v, s\<lparr>pc := (pc s + 1) AND 0xFF\<rparr>) \<and> byte v"
proof -
  from assms have "0 \<le> pc s" "pc s < int (length (mem s))" "list_all byte (mem s)"
    by (simp_all add: cpu_ok_def byte_def)
  then show ?thesis
    by (auto simp: fetch_def py_getitem_ok list_all_length)
qed

lemma cpu_ok_pc: "cpu_ok s \<Longrightarrow> cpu_ok (s\<lparr>pc := x AND 0xFF\<rparr>)"
  by (simp add: cpu_ok_def byte_and255)

lemma mem_read_ok: "cpu_ok s \<Longrightarrow> \<exists>v. mem_read s x = Inr v \<and> byte v"
  unfolding mem_read_def using byte_and255[of x]
  by (intro py_getitem_in) (simp_all add: cpu_ok_def and_255_mod)

lemma get_reg_ok: "cpu_ok s \<Longrightarrow> \<exists>v. get_reg s x = Inr v \<and> byte v"
  by (cases x) (auto simp: cpu_ok_def py_getitem_ok list_all_length)

lemma r_bit_ok: "cpu_ok s \<Longrightarrow> \<exists>v. py_getitem (r s) (y AND 1) = Inr v \<and> byte v"
proof -
  assume ok: "cpu_ok s"
  have "0 \<le> y AND 1" "y AND 1 < 2" by (simp_all add: and_1_mod)
  with ok show ?thesis
    by (intro py_getitem_in) (simp_all add: cpu_ok_def)
qed

lemma REG_MODE_MAP_ok: "\<exists>q. REG_MODE_MAP p (y AND 1) = Some q"
proof -
  have "y AND 1 = 0 \<or> y AND 1 = 1" by (simp add: and_1_mod) presburger
  then show ?thesis by (cases p) auto
qed

lemma resolve_source_ok:
  assumes ok: "cpu_ok s"
  shows "\<exists>v s'. resolve_source s (x AND 3) (y AND 1) p = Inr (v, s') \<and> byte v \<and> a s' = a s
          \<and> z s' = z s \<and> c s' = c s \<and> halted s' = halted s"
proof -
  have mm: "x AND 3 = 0 \<or> x AND 3 = 1 \<or> x AND 3 = 2 \<or> x AND 3 = 3"
    by (simp add: and_3_mod) presburger
  obtain v where f: "fetch s = Inr (v, s\<lparr>pc := (pc s + 1) AND 0xFF\<rparr>)" "byte v"
    using fetch_ok[OF ok] by blast
  let ?s1 = "s\<lparr>pc := (pc s + 1) AND 0xFF\<rparr>"
  have ok1: "cpu_ok ?s1" using ok by (rule cpu_ok_pc)
  from mm show ?thesis
  proof (elim disjE)
    assume "x AND 3 = 0"
    with f show ?thesis by (simp add: resolve_source_def)
  next
    assume m: "x AND 3 = 1"
    obtain q where q: "REG_MODE_MAP p (y AND 1) = Some q" using REG_MODE_MAP_ok by blast
    obtain w where "get_reg s q = Inr w" "byte w" using get_reg_ok[OF ok] by blast
    with m q show ?thesis by (simp add: resolve_source_def)
  next
    assume m: "x AND 3 = 2"
    obtain w where "mem_read ?s1 v = Inr w" "byte w" using mem_read_ok[OF ok1] by blast
    with m f show ?thesis by (simp add: resolve_source_def)
  next
    assume m: "x AND 3 = 3"
    obtain rv where rv: "py_getitem (r ?s1) (y AND 1) = Inr rv" using r_bit_ok[OF ok1] by blast
    obtain w where "mem_read ?s1 ((rv + v) AND 0xFF) = Inr w" "byte w" using mem_read_ok[OF ok1] by blast
    with m f rv show ?thesis by (simp add: resolve_source_def)
  qed
qed

lemma execute_ALU:
  assumes "ALU_OPCODES (drop_bit 3 opc AND 0x1F) = Some mn"
  shows "execute pcb opc s =
     andthen (resolve_source s (opc AND 0x03) (drop_bit 2 opc AND 1) A)
       (\<lambda>(src, s1). Inr (alu mn src s1))"
proof -
  note i = ALU_dom[OF assms]
  show ?thesis
  proof (cases opc rule: execute_cases)
    case (LD m p)
    from LD_dom[OF LD(1)] i show ?thesis by auto
  next
    case (ST m p)
    from ST_dom[OF ST(1)] i show ?thesis by auto
  next
    case (ALU mn')
    from ALU(1) assms have "mn' = mn" by simp
    with ALU(2) show ?thesis by simp
  next
    case (BR m cond_fn)
    from BR_dom[OF BR(1)] i show ?thesis by auto
  next
    case BAD
    from BAD(3) assms show ?thesis by simp
  next
    case JMP
    from JMP(1) i show ?thesis by simp
  next
    case CALL
    from CALL(1) i show ?thesis by simp
  next
    case RET
    from RET(1) i show ?thesis by simp
  next
    case PUSH
    from PUSH(1) i show ?thesis by simp
  next
    case POP
    from POP(1) i show ?thesis by simp
  next
    case INC
    from INC(1) i show ?thesis by simp
  next
    case DEC
    from DEC(1) i show ?thesis by simp
  next
    case NOP
    from NOP(1) i show ?thesis by simp
  next
    case HLT
    from HLT(1) i show ?thesis by simp
  qed
qed

lemma alu_halted: "halted (alu mn src s) = halted s"
  by (simp add: alu_def Let_def set_zc_def set_z_clear_c_def)

lemma alu_ADD:
  assumes "0 \<le> a s" "a s \<le> 255" "0 \<le> src" "src \<le> 255"
  shows "a (alu ''ADD'' src s) = (a s + src) mod 256 \<and>
         (z (alu ''ADD'' src s) \<longleftrightarrow> a (alu ''ADD'' src s) = 0) \<and>
         (c (alu ''ADD'' src s) \<longleftrightarrow> a s + src \<ge> 256)"
proof -
  have "((a s + src) AND 256 \<noteq> 0) = (256 \<le> a s + src)"
    using assms by (intro bit8_carry) simp_all
  then show ?thesis
    by (simp add: alu_def Let_def set_zc_def and_255_mod)
qed

lemma alu_SUB:
  "a (alu ''SUB'' src s) = (a s - src) mod 256 \<and>
   (c (alu ''SUB'' src s) \<longleftrightarrow> a s \<ge> src) \<and>
   (z (alu ''SUB'' src s) \<longleftrightarrow> (a s - src) mod 256 = 0)"
  by (simp add: alu_def Let_def and_255_mod)

lemma alu_CMP:
  "a (alu ''CMP'' src s) = a s \<and>
   (c (alu ''CMP'' src s) \<longleftrightarrow> a s \<ge> src) \<and>
   (z (alu ''CMP'' src s) \<longleftrightarrow> (a s - src) mod 256 = 0)"
  by (simp add: alu_def Let_def and_255_mod)

lemma mod_byte: "0 \<le> x \<and> x \<le> (255::int) \<Longrightarrow> x mod 256 = x"
  by simp

lemma alu_AND:
  assumes "0 \<le> a s" "a s \<le> 255" "0 \<le> src" "src \<le> 255"
  shows "a (alu ''AND'' src s) = a s AND src \<and>
         (z (alu ''AND'' src s) \<longleftrightarrow> a (alu ''AND'' src s) = 0) \<and> \<not> c (alu ''AND'' src s)"
  using mod_byte[OF byte_and[OF assms(1,2,3)]]
  by (simp add: alu_def Let_def set_z_clear_c_def and_255_mod)

lemma alu_OR:
  assumes "0 \<le> a s" "a s \<le> 255" "0 \<le> src" "src \<le> 255"
  shows "a (alu ''OR'' src s) = a s OR src \<and>
         (z (alu ''OR'' src s) \<longleftrightarrow> a (alu ''OR'' src s) = 0) \<and> \<not> c (alu ''OR'' src s)"
  using mod_byte[OF byte_or[OF assms]]
  by (simp add: alu_def Let_def set_z_clear_c_def and_255_mod)

lemma alu_XOR:
  assumes "0 \<le> a s" "a s \<le> 255" "0 \<le> src" "src \<le> 255"
  shows "a (alu ''XOR'' src s) = a s XOR src \<and>
         (z (alu ''XOR'' src s) \<longleftrightarrow> a (alu ''XOR'' src s) = 0) \<and> \<not> c (alu ''XOR'' src s)"
  using mod_byte[OF byte_xor[OF assms]]
  by (simp add: alu_def Let_def set_z_clear_c_def and_255_mod)

lemma step_ALU:
  assumes ok: "cpu_ok s" and live: "\<not> halted s" "pc s \<in> loaded s"
    and f: "fetch s = Inr (opc, s1)"
    and m: "ALU_OPCODES (drop_bit 3 opc AND 0x1F) = Some mn"
  shows "\<exists>src s2.
      resolve_source s1 (opc AND 0x03) (drop_bit 2 opc AND 1) A = Inr (src, s2) \<and>
      step s = Inr (True, (alu mn src s2)\<lparr>cycles := cycles (alu mn src s2) + 1\<rparr>) \<and>
      0 \<le> src \<and> src \<le> 255 \<and> a s2 = a s"
proof -
  from fetch_ok[OF ok] f have s1: "s1 = s\<lparr>pc := (pc s + 1) AND 0xFF\<rparr>" by auto
  then have ok1: "cpu_ok s1" using ok by (simp add: cpu_ok_pc)
  obtain src s2 where rs: "resolve_source s1 (opc AND 0x03) (drop_bit 2 opc AND 1) A = Inr (src, s2)"
    and src: "byte src" and fr: "a s2 = a s1" "halted s2 = halted s1"
    using resolve_source_ok[OF ok1] by blast
  have a2: "a s2 = a s" using fr s1 by simp
  have bs: "0 \<le> src" "src \<le> 255" using src by (simp_all add: byte_def)
  have ex: "execute (pc s) opc s1 = Inr (alu mn src s2)"
    using rs by (simp add: execute_ALU[OF m])
  have h: "\<not> halted (alu mn src s2)"
    using fr s1 live by (simp add: alu_halted)
  have st: "step s = Inr (True, (alu mn src s2)\<lparr>cycles := cycles (alu mn src s2) + 1\<rparr>)"
    unfolding step_def using live f ex h by (simp add: Let_def)
  from rs st bs a2 show ?thesis by blast
qed

lemma list_all_update: "list_all P xs \<Longrightarrow> P v \<Longrightarrow> list_all P (xs[i := v])"
  by (auto simp: list_all_iff dest!: set_update_subset_insert[THEN subsetD])

lemma list_all_replicate: "P v \<Longrightarrow> list_all P (replicate n v)"
  by (simp add: list_all_iff)

lemma cpu_ok_ex: "cpu_ok ex_add_carry"
proof -
  have "list_all byte ((replicate 256 (0::int))[0 := 0x30, 1 := 1])"
    by (intro list_all_update list_all_replicate) (simp_all add: byte_def)
  moreover have "list_all byte (replicate (nat STACK_DEPTH) 0)"
    by (intro list_all_replicate) (simp add: byte_def)
  ultimately show ?thesis
    unfolding cpu_ok_def ex_add_carry_def CPU_init_def
    by (simp add: STACK_DEPTH_def byte_def)
qed

subsection \<open>Which exceptions the arms of execute raise\<close>

lemma py_getitem_Inl: "py_getitem xs i = Inl e \<Longrightarrow> e = IndexError"
  by (simp add: py_getitem_def Let_def split: if_splits)

lemma py_setitem_Inl: "py_setitem xs i v = Inl e \<Longrightarrow> e = IndexError"
  by (simp add: py_setitem_def Let_def split: if_splits)

lemma is_pcu_simps [simp]:
  "is_pcu (RuntimeError (PCUnloaded x))" "\<not> is_pcu IndexError" "\<not> is_pcu KeyError" "\<not> is_pcu TypeError"
  "\<not> is_pcu (RuntimeError STImmediate)" "\<not> is_pcu (RuntimeError (StackOverflow n))"
  "\<not> is_pcu (RuntimeError (StackUnderflow n))" "\<not> is_pcu (RuntimeError (InvalidEncoding m k j))"
  "\<not> is_pcu (RuntimeError (InvalidOpcode k j))"
  by (simp_all add: is_pcu_def)

lemma fetch_pcu: "fetch s = Inl e \<Longrightarrow> \<not> is_pcu e"
  by (auto simp: fetch_def elim!: andthen_InlE dest!: py_getitem_Inl)

lemma mem_read_pcu: "mem_read s x = Inl e \<Longrightarrow> \<not> is_pcu e"
  by (auto simp: mem_read_def dest!: py_getitem_Inl)

lemma mem_write_pcu: "mem_write s x v = Inl e \<Longrightarrow> \<not> is_pcu e"
  by (auto simp: mem_write_def Let_def elim!: andthen_InlE dest!: py_setitem_Inl)

lemma push_pcu: "push s v = Inl e \<Longrightarrow> \<not> is_pcu e"
  by (auto simp: push_def elim!: andthen_InlE dest!: py_setitem_Inl split: if_splits)

lemma pop_pcu: "pop s = Inl e \<Longrightarrow> \<not> is_pcu e"
  by (auto simp: pop_def Let_def elim!: andthen_InlE dest!: py_getitem_Inl split: if_splits)

lemma get_reg_pcu: "get_reg s x = Inl e \<Longrightarrow> \<not> is_pcu e"
  by (cases x) (auto dest!: py_getitem_Inl)

lemma set_reg_pcu: "set_reg s x v = Inl e \<Longrightarrow> \<not> is_pcu e"
  by (cases x) (auto elim!: andthen_InlE dest!: py_setitem_Inl)

lemma resolve_source_pcu: "resolve_source s mm rb p = Inl e \<Longrightarrow> \<not> is_pcu e"
  by (auto simp: resolve_source_def elim!: andthen_InlE split: if_splits option.splits
      dest!: fetch_pcu mem_read_pcu get_reg_pcu py_getitem_Inl)

lemma resolve_dest_pcu: "resolve_dest s mm rb p v = Inl e \<Longrightarrow> \<not> is_pcu e"
  by (auto simp: resolve_dest_def elim!: andthen_InlE split: if_splits option.splits
      dest!: fetch_pcu mem_write_pcu set_reg_pcu py_getitem_Inl)

lemma execute_pcu: "execute pcb opc s = Inl e \<Longrightarrow> \<not> is_pcu e"
  by (cases opc rule: execute_cases)
     (auto simp: Let_def elim!: andthen_InlE split: if_splits option.splits
      dest!: fetch_pcu get_reg_pcu set_reg_pcu resolve_source_pcu resolve_dest_pcu push_pcu pop_pcu)

lemma step_loaded:
  assumes "pc s \<in> loaded s" "pc s \<in> L"
  shows "step (s\<lparr>loaded := L\<rparr>) = map_sum id (apsnd (loaded_update (\<lambda>_. L))) (step s)"
proof (cases "halted s")
  case True
  then show ?thesis by (simp add: step_def)
next
  case False
  show ?thesis
  proof (cases "fetch s")
    case (Inl e)
    with False assms show ?thesis by (simp add: step_def fetch_loaded)
  next
    case (Inr x)
    obtain opc s1 where x: "x = (opc, s1)" by (cases x)
    show ?thesis
    proof (cases "execute (pc s) opc s1")
      case (Inl e)
      with False assms Inr x show ?thesis by (simp add: step_def fetch_loaded execute_loaded)
    next
      case (Inr s2)
      with False assms \<open>fetch s = Inr x\<close> x show ?thesis
        by (simp add: step_def fetch_loaded execute_loaded Let_def)
    qed
  qed
qed

lemma fetch_hx: "fetch s = Inl e \<Longrightarrow> helper_exn e"
  by (auto simp: fetch_def elim!: andthen_InlE dest!: py_getitem_Inl)

lemma push_hx: "push s v = Inl e \<Longrightarrow> helper_exn e"
  by (auto simp: push_def elim!: andthen_InlE dest!: py_setitem_Inl split: if_splits)

lemma pop_hx: "pop s = Inl e \<Longrightarrow> helper_exn e"
  by (auto simp: pop_def Let_def elim!: andthen_InlE dest!: py_getitem_Inl split: if_splits)

lemma get_reg_hx: "get_reg s x = Inl e \<Longrightarrow> helper_exn e"
  by (cases x) (auto dest!: py_getitem_Inl)

lemma set_reg_hx: "set_reg s x v = Inl e \<Longrightarrow> helper_exn e"
  by (cases x) (auto elim!: andthen_InlE dest!: py_setitem_Inl)

lemma and3_cases: "(x::int) AND 3 = 0 \<or> x AND 3 = 1 \<or> x AND 3 = 2 \<or> x AND 3 = 3"
proof -
  have "0 \<le> x mod 4" "x mod 4 < 4" by simp_all
  then show ?thesis unfolding and_3_mod by linarith
qed

lemma REG_ENCODING_None: "REG_ENCODING (x AND 3) = None \<longleftrightarrow> x AND 3 = 3"
  using and3_cases[of x] by (auto simp: REG_ENCODING_def)

lemma or4_iiiii: "drop_bit 3 (x OR 4) = drop_bit 3 (x::int)"
  by (simp add: drop_bit_or)  

lemma or4_mm: "(x OR 4) AND 3 = (x::int) AND 3"
  by (simp add: bit.conj_disj_distrib2)

lemma execute_group_cases [consumes 1, case_names PUSH POP INC DEC]:
  assumes g: "drop_bit 3 opc AND 0x1F \<in> {0x10, 0x11, 0x12, 0x13}"
  obtains
    (PUSH) "drop_bit 3 opc AND 0x1F = 0x10"
      "\<And>pcb s. execute pcb opc s =
         (case REG_ENCODING (opc AND 3) of
            Some rn \<Rightarrow> andthen (get_reg s rn) (\<lambda>v. push s v)
          | None \<Rightarrow> Inl (RuntimeError (InvalidEncoding ''PUSH'' opc pcb)))"
  | (POP) "drop_bit 3 opc AND 0x1F = 0x11"
      "\<And>pcb s. execute pcb opc s =
         (case REG_ENCODING (opc AND 3) of
            Some rn \<Rightarrow> andthen (pop s) (\<lambda>(v, s1). set_reg s1 rn v)
          | None \<Rightarrow> Inl (RuntimeError (InvalidEncoding ''POP'' opc pcb)))"
  | (INC) "drop_bit 3 opc AND 0x1F = 0x12"
      "\<And>pcb s. execute pcb opc s =
         (case REG_ENCODING (opc AND 3) of
            Some rn \<Rightarrow>
              andthen (get_reg s rn) (\<lambda>v0.
                let v = (v0 + 1) AND 0xFF in
                andthen (set_reg s rn v) (\<lambda>s1. Inr (set_z_only s1 v)))
          | None \<Rightarrow> Inl (RuntimeError (InvalidEncoding ''INC'' opc pcb)))"
  | (DEC) "drop_bit 3 opc AND 0x1F = 0x13"
      "\<And>pcb s. execute pcb opc s =
         (case REG_ENCODING (opc AND 3) of
            Some rn \<Rightarrow>
              andthen (get_reg s rn) (\<lambda>v0.
                let v = (v0 - 1) AND 0xFF in
                andthen (set_reg s rn v) (\<lambda>s1. Inr (set_z_only s1 v)))
          | None \<Rightarrow> Inl (RuntimeError (InvalidEncoding ''DEC'' opc pcb)))"
proof (cases opc rule: execute_cases)
  case (LD m p)
  from LD_dom[OF LD(1)] g show ?thesis by auto
next
  case (ST m p)
  from ST_dom[OF ST(1)] g show ?thesis by auto
next
  case (ALU mn)
  from ALU_dom[OF ALU(1)] g show ?thesis by auto
next
  case JMP
  from JMP(1) g show ?thesis by simp
next
  case (BR m cond_fn)
  from BR_dom[OF BR(1)] g show ?thesis by simp
next
  case CALL
  from CALL(1) g show ?thesis by simp
next
  case RET
  from RET(1) g show ?thesis by simp
next
  case PUSH
  then show ?thesis by (rule that(1))
next
  case POP
  then show ?thesis by (rule that(2))
next
  case INC
  then show ?thesis by (rule that(3))
next
  case DEC
  then show ?thesis by (rule that(4))
next
  case NOP
  from NOP(1) g show ?thesis by simp
next
  case HLT
  from HLT(1) g show ?thesis by simp
next
  case BAD
  from BAD(6) g show ?thesis by simp
qed

lemma group_valid_no_encoding_fault:
  assumes g: "drop_bit 3 opc AND 0x1F \<in> {0x10, 0x11, 0x12, 0x13}"
    and mm: "opc AND 3 \<noteq> 3" and e: "execute pcb opc s = Inl e"
  shows "helper_exn e"
proof -
  from mm obtain rn where rn: "REG_ENCODING (opc AND 3) = Some rn"
    using REG_ENCODING_None[of opc] by (cases "REG_ENCODING (opc AND 3)") auto
  from g show ?thesis
  proof (cases rule: execute_group_cases)
    case PUSH
    with rn e show ?thesis by (auto elim!: andthen_InlE dest!: get_reg_hx push_hx)
  next
    case POP
    with rn e show ?thesis by (auto elim!: andthen_InlE dest!: pop_hx set_reg_hx)
  next
    case INC
    with rn e show ?thesis by (auto simp: Let_def elim!: andthen_InlE dest!: get_reg_hx set_reg_hx)
  next
    case DEC
    with rn e show ?thesis by (auto simp: Let_def elim!: andthen_InlE dest!: get_reg_hx set_reg_hx)
  qed
qed

lemma execute_PUSH:
  assumes "drop_bit 3 opc AND 0x1F = 0x10"
  shows "execute pcb opc s =
         (case REG_ENCODING (opc AND 3) of
            Some rn \<Rightarrow> andthen (get_reg s rn) (\<lambda>v. push s v)
          | None \<Rightarrow> Inl (RuntimeError (InvalidEncoding ''PUSH'' opc pcb)))"
proof -
  from assms have "drop_bit 3 opc AND 0x1F \<in> {0x10, 0x11, 0x12, 0x13}" by simp
  then show ?thesis
  proof (cases rule: execute_group_cases)
    case PUSH then show ?thesis by simp
  next
    case POP with assms show ?thesis by simp
  next
    case INC with assms show ?thesis by simp
  next
    case DEC with assms show ?thesis by simp
  qed
qed

lemma execute_POP:
  assumes "drop_bit 3 opc AND 0x1F = 0x11"
  shows "execute pcb opc s =
         (case REG_ENCODING (opc AND 3) of
            Some rn \<Rightarrow> andthen (pop s) (\<lambda>(v, s1). set_reg s1 rn v)
          | None \<Rightarrow> Inl (RuntimeError (InvalidEncoding ''POP'' opc pcb)))"
proof -
  from assms have "drop_bit 3 opc AND 0x1F \<in> {0x10, 0x11, 0x12, 0x13}" by simp
  then show ?thesis
  proof (cases rule: execute_group_cases)
    case PUSH with assms show ?thesis by simp
  next
    case POP then show ?thesis by simp
  next
    case INC with assms show ?thesis by simp
  next
    case DEC with assms show ?thesis by simp
  qed
qed

lemma execute_INC:
  assumes "drop_bit 3 opc AND 0x1F = 0x12"
  shows "execute pcb opc s =
         (case REG_ENCODING (opc AND 3) of
            Some rn \<Rightarrow>
              andthen (get_reg s rn) (\<lambda>v0.
                let v = (v0 + 1) AND 0xFF in
                andthen (set_reg s rn v) (\<lambda>s1. Inr (set_z_only s1 v)))
          | None \<Rightarrow> Inl (RuntimeError (InvalidEncoding ''INC'' opc pcb)))"
proof -
  from assms have "drop_bit 3 opc AND 0x1F \<in> {0x10, 0x11, 0x12, 0x13}" by simp
  then show ?thesis
  proof (cases rule: execute_group_cases)
    case PUSH with assms show ?thesis by simp
  next
    case POP with assms show ?thesis by simp
  next
    case INC then show ?thesis by simp
  next
    case DEC with assms show ?thesis by simp
  qed
qed

lemma execute_DEC:
  assumes "drop_bit 3 opc AND 0x1F = 0x13"
  shows "execute pcb opc s =
         (case REG_ENCODING (opc AND 3) of
            Some rn \<Rightarrow>
              andthen (get_reg s rn) (\<lambda>v0.
                let v = (v0 - 1) AND 0xFF in
                andthen (set_reg s rn v) (\<lambda>s1. Inr (set_z_only s1 v)))
          | None \<Rightarrow> Inl (RuntimeError (InvalidEncoding ''DEC'' opc pcb)))"
proof -
  from assms have "drop_bit 3 opc AND 0x1F \<in> {0x10, 0x11, 0x12, 0x13}" by simp
  then show ?thesis
  proof (cases rule: execute_group_cases)
    case PUSH with assms show ?thesis by simp
  next
    case POP with assms show ?thesis by simp
  next
    case INC with assms show ?thesis by simp
  next
    case DEC then show ?thesis by simp
  qed
qed

lemma group_bit2_ignored:
  assumes g: "drop_bit 3 opc AND 0x1F \<in> {0x10, 0x11, 0x12, 0x13}" and mm: "opc AND 3 \<noteq> 3"
  shows "execute pcb (opc OR 4) s = execute pcb opc s"
proof -
  from mm obtain rn where rn: "REG_ENCODING (opc AND 3) = Some rn"
    using REG_ENCODING_None[of opc] by (cases "REG_ENCODING (opc AND 3)") auto
  from g consider "drop_bit 3 opc AND 0x1F = 0x10" | "drop_bit 3 opc AND 0x1F = 0x11"
    | "drop_bit 3 opc AND 0x1F = 0x12" | "drop_bit 3 opc AND 0x1F = 0x13" by auto
  then show ?thesis
  proof cases
    case 1
    then have "drop_bit 3 (opc OR 4) AND 0x1F = 0x10" by (simp only: or4_iiiii)
    from execute_PUSH[OF this] execute_PUSH[OF 1] rn show ?thesis by (simp add: or4_mm)
  next
    case 2
    then have "drop_bit 3 (opc OR 4) AND 0x1F = 0x11" by (simp only: or4_iiiii)
    from execute_POP[OF this] execute_POP[OF 2] rn show ?thesis by (simp add: or4_mm)
  next
    case 3
    then have "drop_bit 3 (opc OR 4) AND 0x1F = 0x12" by (simp only: or4_iiiii)
    from execute_INC[OF this] execute_INC[OF 3] rn show ?thesis by (simp add: or4_mm)
  next
    case 4
    then have "drop_bit 3 (opc OR 4) AND 0x1F = 0x13" by (simp only: or4_iiiii)
    from execute_DEC[OF this] execute_DEC[OF 4] rn show ?thesis by (simp add: or4_mm)
  qed
qed

lemma group_invalid_fault:
  assumes g: "drop_bit 3 opc AND 0x1F \<in> {0x10, 0x11, 0x12, 0x13}" and mm: "opc AND 3 = 3"
  shows "\<exists>m. execute pcb opc s = Inl (RuntimeError (InvalidEncoding m opc pcb))"
proof -
  from mm have rn: "REG_ENCODING (opc AND 3) = None" by (simp add: REG_ENCODING_def)
  from g show ?thesis
    by (cases rule: execute_group_cases) (simp_all add: rn)
qed

lemmas sim_defs = step_def fetch_def py_getitem_def py_setitem_def execute_def LD_OPCODES_def ST_OPCODES_def
  ALU_OPCODES_def BRANCH_CONDITION_def REG_ENCODING_def set_z_only_def set_zc_def set_z_clear_c_def
  push_def pop_def mem_read_def mem_write_def resolve_source_def resolve_dest_def alu_def IO_ADDR_def STACK_DEPTH_def

section \<open>Assembler: supporting lemmas\<close>

lemma branch_not_compound:
  assumes "mn \<in> BRANCH_INSTRUCTIONS"
  shows "FIXED_OPCODES (mn @ '' '' @ u) = None"
  using assms by (auto simp: BRANCH_INSTRUCTIONS_def FIXED_OPCODES_def)

lemma branch_opcode:
  assumes "mn \<in> BRANCH_INSTRUCTIONS"
  shows "\<exists>opcode. FIXED_OPCODES mn = Some opcode \<and> opcode \<in> {0x68, 0x69, 0x6A, 0x6B}"
  using assms by (auto simp: BRANCH_INSTRUCTIONS_def FIXED_OPCODES_def)

lemma encode_line_branch:
  assumes br: "mn \<in> BRANCH_INSTRUCTIONS" and op: "FIXED_OPCODES mn = Some opcode"
  shows "encode_line st ln start mn (Some text) =
     andthen (parse_operand text (symbols st))
       (\<lambda>(_, _, v).
          case resolve st v ln of
            (VInt target, st1) \<Rightarrow>
              (let disp = target - (start + 2) in
               if disp < - 128 \<or> disp > 127
               then Inr (error st1 ln (BranchRange disp), [opcode, 0 AND 0xFF])
               else Inr (st1, [opcode, disp AND 0xFF]))
          | (_, st1) \<Rightarrow> Inl TypeError)"
proof -
  have nc: "FIXED_OPCODES (mn @ '' '' @ upper (strip text)) = None"
    using br by (rule branch_not_compound)
  have ne: "mn \<noteq> ''.DB''" "mn \<noteq> ''.DS''" "mn \<noteq> ''LD''" "mn \<noteq> ''ST''" "mn \<notin> NO_OPERAND"
    "mn \<noteq> ''JMP''" "mn \<noteq> ''CALL''"
    using br by (auto simp: BRANCH_INSTRUCTIONS_def NO_OPERAND_def)
  show ?thesis
    unfolding encode_line_def using nc ne br op by simp
qed

lemma errors_error: "errors (error st ln m) = errors st @ [(ln, m)]"
  by (simp add: error_def)

lemma resolve_errors:
  assumes "resolve st v ln = (w, st1)"
  shows "(st1 = st) \<or> (\<exists>name. v = VStr name \<and> map_of (symbols st) name = None \<and>
            st1 = error st ln (UndefinedSymbol name))"
  using assms by (auto simp: resolve_def split: pyval.splits option.splits)

lemma resolve_target:
  assumes "resolve st v ln = (VInt target, st)"
  shows "v = VInt target \<or> (\<exists>name. v = VStr name \<and> map_of (symbols st) name = Some target)"
proof -
  have "error st ln m \<noteq> st" for m
  proof
    assume "error st ln m = st"
    then have "errors (error st ln m) = errors st" by simp
    then show False by (simp add: errors_error)
  qed
  with assms show ?thesis
    by (auto simp: resolve_def split: pyval.splits option.splits)
qed

lemma write_emitted_two:
  "write_emitted st ln start od [x, y] =
     (if start > 0xFF then (error st ln (AddressExceeds start), od)
      else if start + 1 > 0xFF
           then (error st ln (AddressExceeds (start + 1)), AList.update start x od)
      else (st, AList.update (start + 1) y (AList.update start x od)))"
  by simp

lemma and255_range: "0 \<le> (x::int) AND 255 \<and> x AND 255 \<le> 255"
  by (simp add: and_255_mod)

lemma signed_byte:
  assumes "- 128 \<le> x" "x \<le> (127::int)"
  shows "(if x AND 255 < 128 then x AND 255 else (x AND 255) - 256) = x"
proof (cases "0 \<le> x")
  case True
  with assms have "x mod 256 = x" by simp
  with True assms show ?thesis by (simp add: and_255_mod)
next
  case False
  with assms have "(x + 256) mod 256 = x + 256" by (intro mod_pos_pos_trivial) simp_all
  then have "x mod 256 = x + 256" by simp
  with False assms show ?thesis by (simp add: and_255_mod)
qed

lemma error_neq: "errors (error st ln m) \<noteq> errors st"
  by (simp add: errors_error)

lemma error_error_neq: "errors (error (error st ln m) ln' m') \<noteq> errors st"
  by (simp add: errors_error)

lemma error_error_error_neq: "errors (error (error (error st ln m) ln' m') ln'' m'') \<noteq> errors st"
  by (simp add: errors_error)

section \<open>Lemmas about the object-file codecs\<close>

subsection \<open>Hexadecimal text\<close>

lemma hex_digit_table:
  "list_all (\<lambda>k. hex_val (hex_digit (int k)) = Some (int k) \<and> \<not> isspace (hex_digit (int k))) [0..<16]"
  by code_simp

lemma hex_digit_ok:
  assumes "0 \<le> n" "n < 16"
  shows "hex_val (hex_digit n) = Some n" and "\<not> isspace (hex_digit n)"
proof -
  from assms have "nat n \<in> set [0..<16]" by simp
  with hex_digit_table have "hex_val (hex_digit (int (nat n))) = Some (int (nat n)) \<and> \<not> isspace (hex_digit (int (nat n)))"
    unfolding list_all_iff by blast
  with assms show "hex_val (hex_digit n) = Some n" and "\<not> isspace (hex_digit n)" by simp_all
qed

lemma ascii_space_isspace: "is_ascii_space ch \<Longrightarrow> isspace ch"
  by (auto simp: is_ascii_space_def isspace_def)

lemma linebreak_isspace: "is_linebreak ch \<Longrightarrow> isspace ch"
  by (auto simp: is_linebreak_def isspace_def)

lemma byte_div16: "byte b \<Longrightarrow> 0 \<le> b div 16 \<and> b div 16 < 16"
  unfolding byte_def by presburger

lemma format_02X_byte:
  assumes "byte b"
  shows "format_02X b = [hex_digit (b div 16), hex_digit (b mod 16)]"
proof (cases "b < 16")
  case True
  with assms have "b div 16 = 0" "b mod 16 = b" by (simp_all add: byte_def)
  moreover have "hex_digit 0 = CHR ''0''" by (simp add: hex_digit_def)
  ultimately show ?thesis using True assms
    by (simp add: format_02X_def byte_def hex_digits.simps[of b])
next
  case False
  with assms have "b div 16 < 16" by (simp add: byte_def)
  then have "hex_digits (b div 16) = [hex_digit (b div 16)]"
    by (simp add: hex_digits.simps[of "b div 16"])
  with False assms show ?thesis
    by (simp add: format_02X_def byte_def hex_digits.simps[of b])
qed

lemma fromhex_format:
  "list_all byte bs \<Longrightarrow> fromhex (concat (map format_02X bs)) = Some bs"
proof (induction bs)
  case Nil
  show ?case by simp
next
  case (Cons b bs)
  then have b: "byte b" and bs: "list_all byte bs" by simp_all
  have r: "0 \<le> b div 16" "b div 16 < 16" "0 \<le> b mod 16" "b mod 16 < 16"
    using byte_div16[OF b] by simp_all
  have ns: "\<not> is_ascii_space (hex_digit (b div 16))"
    using hex_digit_ok(2)[OF r(1,2)] ascii_space_isspace by blast
  have "b div 16 * 16 + b mod 16 = b" by simp
  then show ?case
    using Cons.IH[OF bs] ns hex_digit_ok(1)[OF r(1,2)] hex_digit_ok(1)[OF r(3,4)]
    by (simp add: format_02X_byte[OF b])
qed

lemma format_nospace:
  "list_all byte bs \<Longrightarrow> \<forall>ch\<in>set (concat (map format_02X bs)). \<not> isspace ch"
proof (induction bs)
  case Nil
  show ?case by simp
next
  case (Cons b bs)
  then have b: "byte b" and bs: "list_all byte bs" by simp_all
  have r: "0 \<le> b div 16" "b div 16 < 16" "0 \<le> b mod 16" "b mod 16 < 16"
    using byte_div16[OF b] by simp_all
  show ?case
    using Cons.IH[OF bs] hex_digit_ok(2)[OF r(1,2)] hex_digit_ok(2)[OF r(3,4)]
    by (simp add: format_02X_byte[OF b])
qed

lemma strip_nospace:
  assumes "\<forall>ch\<in>set l. \<not> isspace ch"
  shows "strip l = l"
proof -
  have "dropWhile isspace l = l" using assms by (simp add: dropWhile_eq_self_iff)
  moreover have "dropWhile isspace (rev l) = rev l"
    using assms by (cases "rev l") (auto simp: dropWhile_eq_self_iff dest: arg_cong[where f=set])
  ultimately show ?thesis by (simp add: strip_def lstrip_def rstrip_def)
qed

lemma splitlines_line:
  "\<forall>ch\<in>set l. \<not> isspace ch \<Longrightarrow> splitlines (l @ CHR 0x0A # rest) = l # splitlines rest"
proof (induction l)
  case Nil
  show ?case by (simp add: is_linebreak_def py_ord_def after_break_def)
next
  case (Cons x l)
  then have "\<not> is_linebreak x" using linebreak_isspace by auto
  with Cons show ?case by simp
qed

lemma join_nl_concat:
  "ls \<noteq> [] \<Longrightarrow> join_nl ls @ [CHR 0x0A] = concat (map (\<lambda>l. l @ [CHR 0x0A]) ls)"
  by (induction ls rule: join_nl.induct) simp_all

lemma splitlines_join:
  assumes "ls \<noteq> []" and "\<forall>l\<in>set ls. \<forall>ch\<in>set l. \<not> isspace ch"
  shows "splitlines (join_nl ls @ [CHR 0x0A]) = ls"
proof -
  have "splitlines (concat (map (\<lambda>l. l @ [CHR 0x0A]) ks)) = ks"
    if "\<forall>l\<in>set ks. \<forall>ch\<in>set l. \<not> isspace ch" for ks
    using that by (induction ks) (simp_all add: splitlines_line)
  with assms show ?thesis by (simp add: join_nl_concat)
qed

lemma byte_addr: "byte base \<Longrightarrow> drop_bit 8 base AND 255 = 0 \<and> base AND 255 = base"
  by (simp add: byte_def and_255_mod drop_bit_eq_div)

lemma parse_hex_loop_record:
  assumes "byte base" "list_all byte data" "length data \<le> 16"
  shows "parse_hex_loop result n (hex_record base data # rest) =
         parse_hex_loop (store_data result base data) (Suc n) rest"
proof -
  define body where "body = [int (length data), 0, base, 0] @ data"
  define ck where "ck = (NOT (sum_list body) + 1) AND 255"
  define raw where "raw = body @ [ck]"
  define line where "line = hex_record base data"
  have line: "line = CHR '':'' # concat (map format_02X raw)"
    using byte_addr[OF assms(1)] by (simp add: line_def hex_record_def Let_def body_def ck_def raw_def)
  have bytes: "list_all byte raw"
    using assms by (simp add: raw_def body_def ck_def byte_and255) (simp add: byte_def)
  have ns: "\<forall>ch\<in>set line. \<not> isspace ch"
    using format_nospace[OF bytes] by (simp add: line isspace_def py_ord_def)
  have st: "strip line = line" by (rule strip_nospace[OF ns])
  have ne: "line \<noteq> []" and sw: "startswith line '':''" by (simp_all add: line startswith_def)
  have fh: "fromhex (tl line) = Some raw" by (simp add: line fromhex_format[OF bytes])
  have facts: "\<not> length raw < 5" "raw ! 0 = int (length data)" "raw ! Suc 0 = 0" "raw ! 2 = base"
    "raw ! 3 = 0" "butlast raw = body" "last raw = ck" "drop 4 body = data"
    by (simp_all add: raw_def body_def numeral_2_eq_2 numeral_3_eq_3)
  have ck: "(NOT (sum_list body) + 1) AND 255 = ck" by (simp add: ck_def)
  show ?thesis
    unfolding line_def[symmetric]
    by (simp add: st ne sw fh facts ck Let_def)
qed

lemma parse_hex_loop_eof: "parse_hex_loop result n ('':00000001FF'' # rest) = Inr result"
proof -
  have st: "strip '':00000001FF'' = '':00000001FF''" by code_simp
  have fh: "fromhex ''00000001FF'' = Some [0, 0, 0, 1, 255]" by code_simp
  show ?thesis by (simp add: st fh startswith_def Let_def del: fromhex.simps)
qed

lemma srec_line_facts:
  fixes body :: "int list" and t :: char
  assumes "list_all byte body"
  defines "raw \<equiv> body @ [NOT (sum_list body) AND 255]"
  defines "line \<equiv> srec_line [CHR ''S'', t] body"
  shows "strip line = line" "line \<noteq> []" "startswith line ''S''" "py_getitem line 1 = Inr t"
    "fromhex (drop 2 line) = Some raw"
proof -
  have line: "line = CHR ''S'' # t # concat (map format_02X raw)"
    by (simp add: line_def srec_line_def raw_def)
  have bytes: "list_all byte raw"
    using assms(1) by (simp add: raw_def byte_and255)
  show "fromhex (drop 2 line) = Some raw" by (simp add: line fromhex_format[OF bytes])
  show "line \<noteq> []" "startswith line ''S''" "py_getitem line 1 = Inr t"
    by (simp_all add: line startswith_def py_getitem_def)
  have "dropWhile isspace line = line" by (simp add: line isspace_def py_ord_def)
  moreover have "dropWhile isspace (rev line) = rev line"
  proof (cases raw rule: rev_cases)
    case Nil
    then show ?thesis by (simp add: raw_def)
  next
    case (snoc ys y)
    with bytes have y: "byte y" by simp
    have r: "0 \<le> y mod 16" "y mod 16 < 16" by simp_all
    show ?thesis using hex_digit_ok(2)[OF r]
      by (simp add: line snoc format_02X_byte[OF y])
  qed
  ultimately show "strip line = line" by (simp add: strip_def lstrip_def rstrip_def)
qed

lemma parse_srec_loop_checked:
  assumes "list_all byte body" "body \<noteq> []" "hd body = int (length body)"
  shows "parse_srec_loop result n (srec_line [CHR ''S'', t] body # rest) =
         (if t = CHR ''0'' then parse_srec_loop result (Suc n) rest
          else if t = CHR ''1'' then
            andthen (py_getitem (body @ [NOT (sum_list body) AND 255]) 1) (\<lambda>hi.
              andthen (py_getitem (body @ [NOT (sum_list body) AND 255]) 2) (\<lambda>lo.
                parse_srec_loop (store_data result (push_bit 8 hi OR lo) (drop 3 body)) (Suc n) rest))
          else if t = CHR ''9'' then Inr result
          else parse_srec_loop result (Suc n) rest)"
proof -
  define ck where "ck = NOT (sum_list body) AND 255"
  define line where "line = srec_line [CHR ''S'', t] body"
  note f = srec_line_facts[OF assms(1), of t, folded line_def ck_def]
  have b0: "(body @ [ck]) ! 0 = int (length body)"
    using assms(2,3) by (cases body) simp_all
  show ?thesis
    unfolding line_def[symmetric] ck_def[symmetric]
    by (simp add: f b0 Let_def ck_def[symmetric])
qed

lemma parse_srec_loop_header:
  "parse_srec_loop result n (srec_line ''S0'' ([2 + 1 + int (length (map py_ord ''EDU-CPU'')), 0, 0] @ map py_ord ''EDU-CPU'') # rest) =
   parse_srec_loop result (Suc n) rest"
proof -
  have "list_all byte ([2 + 1 + int (length (map py_ord ''EDU-CPU'')), 0, 0] @ map py_ord ''EDU-CPU'')"
    by (simp add: byte_def py_ord_def)
  from parse_srec_loop_checked[OF this, where t = "CHR ''0''"]
  show ?thesis by simp
qed

lemma parse_srec_loop_end:
  "parse_srec_loop result n (srec_line ''S9'' [3, 0, 0] # rest) = Inr result"
proof -
  have "list_all byte [3, 0, 0]" by (simp add: byte_def)
  from parse_srec_loop_checked[OF this, where t = "CHR ''9''"]
  show ?thesis by simp
qed

lemma parse_srec_loop_record:
  assumes "byte base" "list_all byte data" "length data \<le> 16"
  shows "parse_srec_loop result n (srec_record base data # rest) =
         parse_srec_loop (store_data result base data) (Suc n) rest"
proof -
  define body where "body = [2 + int (length data) + 1, 0, base] @ data"
  have line: "srec_record base data = srec_line [CHR ''S'', CHR ''1''] body"
    using byte_addr[OF assms(1)] by (simp add: srec_record_def body_def)
  have bytes: "list_all byte body"
    using assms by (simp add: body_def) (simp add: byte_def)
  have h: "body \<noteq> []" "hd body = int (length body)" by (simp_all add: body_def)
  have g: "py_getitem (body @ [ck]) 1 = Inr 0" "py_getitem (body @ [ck]) 2 = Inr base"
    "drop 3 body = data" for ck
    by (simp_all add: body_def py_getitem_def)
  show ?thesis
    unfolding line parse_srec_loop_checked[OF bytes h]
    by (simp add: g)
qed

subsection \<open>Records and the dictionary they carry\<close>

lemma hex_record_nospace:
  assumes "byte base" "list_all byte data" "length data \<le> 16"
  shows "\<forall>ch\<in>set (hex_record base data). \<not> isspace ch"
proof -
  define body where "body = [int (length data), 0, base, 0] @ data"
  define raw where "raw = body @ [(NOT (sum_list body) + 1) AND 255]"
  have line: "hex_record base data = CHR '':'' # concat (map format_02X raw)"
    using byte_addr[OF assms(1)] by (simp add: hex_record_def Let_def body_def raw_def)
  have bytes: "list_all byte raw"
    using assms by (simp add: raw_def body_def byte_and255) (simp add: byte_def)
  show ?thesis
    using format_nospace[OF bytes] by (simp add: line isspace_def py_ord_def)
qed

lemma srec_line_nospace:
  assumes "list_all byte body" "\<not> isspace t"
  shows "\<forall>ch\<in>set (srec_line [CHR ''S'', t] body). \<not> isspace ch"
proof -
  define raw where "raw = body @ [NOT (sum_list body) AND 255]"
  have line: "srec_line [CHR ''S'', t] body = CHR ''S'' # t # concat (map format_02X raw)"
    by (simp add: srec_line_def raw_def)
  have bytes: "list_all byte raw"
    using assms(1) by (simp add: raw_def byte_and255)
  show ?thesis
    using format_nospace[OF bytes] assms(2) by (simp add: line) (simp add: isspace_def py_ord_def)
qed

lemma srec_record_nospace:
  assumes "byte base" "list_all byte data" "length data \<le> 16"
  shows "\<forall>ch\<in>set (srec_record base data). \<not> isspace ch"
proof -
  have "list_all byte ([2 + int (length data) + 1, 0, base] @ data)"
    using assms by simp (simp add: byte_def)
  from srec_line_nospace[OF this, of "CHR ''1''"] show ?thesis
    using byte_addr[OF assms(1)] by (simp add: srec_record_def isspace_def py_ord_def)
qed

lemma gather_spec:
  assumes "gather m base data xs = (data', rest')" "\<forall>x\<in>set xs. x < 256"
  shows "\<exists>pre. xs = pre @ rest' \<and> data' = data @ map (\<lambda>x. the (map_of m x)) pre \<and>
           (length data \<le> 16 \<longrightarrow> length data' \<le> 16) \<and>
           (\<forall>r. store_data r (base + int (length data)) (map (\<lambda>x. the (map_of m x)) pre) =
                fold (\<lambda>x. AList.update x (the (map_of m x))) pre r)"
  using assms
proof (induction xs arbitrary: data)
  case Nil
  then show ?case by simp
next
  case (Cons x xs)
  show ?case
  proof (cases "x = base + int (length data) \<and> length data < 16")
    case True
    with Cons.prems(1) have g: "gather m base (data @ [the (map_of m x)]) xs = (data', rest')"
      by simp
    from Cons.prems(2) have lt: "\<forall>x\<in>set xs. x < 256" and x: "x < 256" by simp_all
    from Cons.IH[OF g lt] obtain pre where
      p: "xs = pre @ rest'"
      "data' = (data @ [the (map_of m x)]) @ map (\<lambda>x. the (map_of m x)) pre"
      "length (data @ [the (map_of m x)]) \<le> 16 \<longrightarrow> length data' \<le> 16"
      "\<forall>r. store_data r (base + int (length (data @ [the (map_of m x)]))) (map (\<lambda>x. the (map_of m x)) pre) =
           fold (\<lambda>x. AList.update x (the (map_of m x))) pre r"
      by blast
    have e: "base + int (length (data @ [the (map_of m x)])) = x + 1"
      using True by simp
    have "x # xs = (x # pre) @ rest'" using p(1) by simp
    moreover have "data' = data @ map (\<lambda>x. the (map_of m x)) (x # pre)" using p(2) by simp
    moreover have "length data \<le> 16 \<longrightarrow> length data' \<le> 16" using p(3) True by simp
    moreover have "\<forall>r. store_data r (base + int (length data)) (map (\<lambda>x. the (map_of m x)) (x # pre)) =
        fold (\<lambda>x. AList.update x (the (map_of m x))) (x # pre) r"
      using p(4) x True unfolding e by simp
    ultimately show ?thesis by blast
  next
    case False
    with Cons.prems(1) have "data' = data" "rest' = x # xs" by auto
    then have "x # xs = [] @ rest' \<and> data' = data @ map (\<lambda>x. the (map_of m x)) [] \<and>
        (length data \<le> 16 \<longrightarrow> length data' \<le> 16) \<and>
        (\<forall>r. store_data r (base + int (length data)) (map (\<lambda>x. the (map_of m x)) []) =
             fold (\<lambda>x. AList.update x (the (map_of m x))) [] r)"
      by simp
    then show ?thesis by blast
  qed
qed

lemma runs_fold:
  "\<forall>x\<in>set addrs. x < 256 \<Longrightarrow>
   fold (\<lambda>(b, d) r. store_data r b d) (runs m addrs) acc =
   fold (\<lambda>x. AList.update x (the (map_of m x))) addrs acc"
proof (induction m addrs arbitrary: acc rule: runs.induct)
  case (1 m)
  show ?case by simp
next
  case (2 m base rest)
  obtain data rest' where g: "gather m base [] (base # rest) = (data, rest')"
    by (cases "gather m base [] (base # rest)") blast
  from gather_spec[OF g "2.prems"] obtain pre where
    p: "base # rest = pre @ rest'" "data = map (\<lambda>x. the (map_of m x)) pre"
    "\<forall>r. store_data r base (map (\<lambda>x. the (map_of m x)) pre) =
         fold (\<lambda>x. AList.update x (the (map_of m x))) pre r"
    by auto
  have lt: "\<forall>x\<in>set rest'. x < 256"
  proof -
    have "set rest' \<subseteq> set (base # rest)" unfolding p(1) by simp
    with "2.prems" show ?thesis by blast
  qed
  have "fold (\<lambda>(b, d) r. store_data r b d) (runs m (base # rest)) acc =
        fold (\<lambda>(b, d) r. store_data r b d) (runs m rest') (store_data acc base data)"
    using g by (simp del: gather.simps)
  also have "\<dots> = fold (\<lambda>x. AList.update x (the (map_of m x))) rest' (store_data acc base data)"
    by (rule "2.IH"[OF g[symmetric] lt])
  also have "\<dots> = fold (\<lambda>x. AList.update x (the (map_of m x))) (pre @ rest') acc"
    using p(3) by (simp add: p(2))
  finally show ?case unfolding p(1) .
qed

lemma runs_good:
  "\<forall>x\<in>set addrs. x < 256 \<Longrightarrow> (b, d) \<in> set (runs m addrs) \<Longrightarrow>
   b \<in> set addrs \<and> length d \<le> 16 \<and> set d \<subseteq> (\<lambda>x. the (map_of m x)) ` set addrs"
proof (induction m addrs rule: runs.induct)
  case (1 m)
  then show ?case by simp
next
  case (2 m base rest)
  obtain data rest' where g: "gather m base [] (base # rest) = (data, rest')"
    by (cases "gather m base [] (base # rest)") blast
  from gather_spec[OF g "2.prems"(1)] obtain pre where
    p: "base # rest = pre @ rest'" "data = map (\<lambda>x. the (map_of m x)) pre" "length data \<le> 16"
    by auto
  have sub: "set rest' \<subseteq> set (base # rest)" "set pre \<subseteq> set (base # rest)"
    unfolding p(1) by simp_all
  with "2.prems"(1) have lt: "\<forall>x\<in>set rest'. x < 256" by blast
  from "2.prems"(2) g have "(b, d) = (base, data) \<or> (b, d) \<in> set (runs m rest')"
    by (simp del: gather.simps)
  then show ?case
  proof
    assume "(b, d) = (base, data)"
    then have "b = base" "d = data" by simp_all
    then show ?thesis using p(2,3) sub(2) by auto
  next
    assume "(b, d) \<in> set (runs m rest')"
    from "2.IH"[OF g[symmetric] lt this] sub(1) show ?thesis by auto
  qed
qed

lemma parse_hex_loop_chunks:
  "\<forall>(b, d)\<in>set chunks. byte b \<and> list_all byte d \<and> length d \<le> 16 \<Longrightarrow>
   parse_hex_loop acc n (map (\<lambda>(b, d). hex_record b d) chunks @ ['':00000001FF'']) =
   Inr (fold (\<lambda>(b, d) r. store_data r b d) chunks acc)"
proof (induction chunks arbitrary: acc n)
  case Nil
  show ?case by (simp add: parse_hex_loop_eof del: parse_hex_loop.simps)
next
  case (Cons ch chunks)
  obtain b d where ch: "ch = (b, d)" by (cases ch)
  from Cons.prems ch have good: "byte b" "list_all byte d" "length d \<le> 16"
    and rest: "\<forall>(b, d)\<in>set chunks. byte b \<and> list_all byte d \<and> length d \<le> 16"
    by simp_all
  show ?case
    using Cons.IH[OF rest]
    by (simp add: ch parse_hex_loop_record[OF good] del: parse_hex_loop.simps)
qed

lemma parse_srec_loop_chunks:
  "\<forall>(b, d)\<in>set chunks. byte b \<and> list_all byte d \<and> length d \<le> 16 \<Longrightarrow>
   parse_srec_loop acc n (map (\<lambda>(b, d). srec_record b d) chunks @ [srec_line ''S9'' [3, 0, 0]]) =
   Inr (fold (\<lambda>(b, d) r. store_data r b d) chunks acc)"
proof (induction chunks arbitrary: acc n)
  case Nil
  show ?case by (simp add: parse_srec_loop_end del: parse_srec_loop.simps)
next
  case (Cons ch chunks)
  obtain b d where ch: "ch = (b, d)" by (cases ch)
  from Cons.prems ch have good: "byte b" "list_all byte d" "length d \<le> 16"
    and rest: "\<forall>(b, d)\<in>set chunks. byte b \<and> list_all byte d \<and> length d \<le> 16"
    by simp_all
  show ?case
    using Cons.IH[OF rest]
    by (simp add: ch parse_srec_loop_record[OF good] del: parse_srec_loop.simps)
qed

lemma fold_update_map_of:
  "map_of (fold (\<lambda>x. AList.update x (f x)) xs acc) k = (if k \<in> set xs then Some (f k) else map_of acc k)"
  by (induction xs arbitrary: acc) (simp_all add: update_conv')

lemma fold_update_distinct:
  "distinct (map fst acc) \<Longrightarrow> distinct (map fst (fold (\<lambda>x. AList.update x (f x)) xs acc))"
  by (induction xs arbitrary: acc) (simp_all add: distinct_update)

lemma dict_chunks:
  assumes "\<forall>(a, b)\<in>set m. 0 \<le> a \<and> a \<le> 255 \<and> 0 \<le> b \<and> b \<le> 255"
  defines "addrs \<equiv> sort (map fst m)"
  shows "\<forall>x\<in>set addrs. x < 256"
    and "\<forall>(b, d)\<in>set (runs m addrs). byte b \<and> list_all byte d \<and> length d \<le> 16"
    and "map_of (fold (\<lambda>x. AList.update x (the (map_of m x))) addrs []) = map_of m"
proof -
  have keys: "set addrs = fst ` set m" by (simp add: addrs_def)
  show lt: "\<forall>x\<in>set addrs. x < 256" using assms(1) unfolding keys by auto
  have kb: "byte x" if "x \<in> set addrs" for x using assms(1) that unfolding keys byte_def by auto
  have vb: "byte (the (map_of m x))" if "x \<in> set addrs" for x
  proof -
    from that obtain y where "map_of m x = Some y"
      unfolding keys by (metis map_of_eq_None_iff not_Some_eq)
    moreover from this have "(x, y) \<in> set m" by (rule map_of_SomeD)
    ultimately show ?thesis using assms(1) by (auto simp: byte_def)
  qed
  show "\<forall>(b, d)\<in>set (runs m addrs). byte b \<and> list_all byte d \<and> length d \<le> 16"
  proof (clarify, intro conjI)
    fix b d assume "(b, d) \<in> set (runs m addrs)"
    from runs_good[OF lt this] have g: "b \<in> set addrs" "length d \<le> 16"
      "set d \<subseteq> (\<lambda>x. the (map_of m x)) ` set addrs" by simp_all
    show "byte b" by (rule kb[OF g(1)])
    show "length d \<le> 16" by (rule g(2))
    show "list_all byte d" unfolding list_all_iff using g(3) vb by blast
  qed
  show "map_of (fold (\<lambda>x. AList.update x (the (map_of m x))) addrs []) = map_of m"
  proof
    fix k
    show "map_of (fold (\<lambda>x. AList.update x (the (map_of m x))) addrs []) k = map_of m k"
    proof (cases "k \<in> set addrs")
      case True
      then obtain y where "map_of m k = Some y"
        unfolding keys by (metis map_of_eq_None_iff not_Some_eq)
      with True show ?thesis by (simp add: fold_update_map_of)
    next
      case False
      then have "map_of m k = None" unfolding keys by (simp add: map_of_eq_None_iff)
      with False show ?thesis by (simp add: fold_update_map_of)
    qed
  qed
qed

lemma generate_hex_lines:
  "generate_hex m = join_nl (map (\<lambda>(b, d). hex_record b d) (runs m (sort (map fst m))) @ ['':00000001FF'']) @ [CHR 0x0A]"
  by (simp add: generate_hex_def)

lemma generate_srec_lines:
  "generate_srec m =
   join_nl (srec_line ''S0'' ([2 + 1 + int (length (map py_ord ''EDU-CPU'')), 0, 0] @ map py_ord ''EDU-CPU'')
            # map (\<lambda>(b, d). srec_record b d) (runs m (sort (map fst m))) @ [srec_line ''S9'' [3, 0, 0]])
   @ [CHR 0x0A]"
  by (simp add: generate_srec_def Let_def)

section \<open>Claims about the simulator and the encoding tables\<close>

text \<open>
  C1. In register mode the R bit selects one of the two registers that are not the
  primary register, as the cross table says, and the assembler's \<open>REG_MODE_R_BIT\<close>
  and the simulator's \<open>REG_MODE_MAP\<close> agree: for every primary register \<open>p\<close> and
  every other register \<open>q\<close>, decoding the R bit the assembler emits for \<open>(p, q)\<close>
  gives \<open>q\<close> again, also through the opcode that \<open>encode_ld_st\<close> builds.
\<close>

theorem reg_mode_tables_agree:
  "(\<forall>p q. q \<noteq> p \<longrightarrow>
      (\<exists>rb. REG_MODE_R_BIT (name_of_reg p, Some (name_of_reg q)) = Some rb \<and>
            REG_MODE_MAP p rb = Some q)) \<and>
   (\<forall>k1 k2 rb. REG_MODE_R_BIT (k1, k2) = Some rb \<longrightarrow>
      (\<exists>p q. k1 = name_of_reg p \<and> k2 = Some (name_of_reg q) \<and> q \<noteq> p \<and>
             REG_MODE_MAP p rb = Some q)) \<and>
   (\<forall>p rb q. REG_MODE_MAP p rb = Some q \<longrightarrow> q \<noteq> p \<and> (rb = 0 \<or> rb = 1)) \<and>
   REG_MODE_MAP A 0 = Some R0 \<and> REG_MODE_MAP A 1 = Some R1 \<and>
   REG_MODE_MAP R0 0 = Some A \<and> REG_MODE_MAP R0 1 = Some R1 \<and>
   REG_MODE_MAP R1 0 = Some A \<and> REG_MODE_MAP R1 1 = Some R0 \<and>
   (\<forall>p q st v. q \<noteq> p \<longrightarrow>
      (\<exists>opc. encode_ld_st st (name_of_reg p) ''reg'' (Some (name_of_reg q)) v = Inr (opc, None) \<and>
             (if st then ST_OPCODES else LD_OPCODES) (drop_bit 3 opc AND 0x1F) =
               Some (if st then ''ST'' else ''LD'', p) \<and>
             opc AND 0x03 = 1 \<and>
             REG_MODE_MAP p (drop_bit 2 opc AND 1) = Some q))"
proof (intro conjI allI impI)
  fix p q :: reg
  assume "q \<noteq> p"
  then show "\<exists>rb. REG_MODE_R_BIT (name_of_reg p, Some (name_of_reg q)) = Some rb \<and>
            REG_MODE_MAP p rb = Some q"
    by (cases p; cases q; simp add: REG_MODE_R_BIT_def)
next
  fix k1 k2 rb
  assume "REG_MODE_R_BIT (k1, k2) = Some rb"
  then consider "k1 = ''A''" "k2 = Some ''R0''" "rb = 0" | "k1 = ''A''" "k2 = Some ''R1''" "rb = 1"
    | "k1 = ''R0''" "k2 = Some ''A''" "rb = 0" | "k1 = ''R0''" "k2 = Some ''R1''" "rb = 1"
    | "k1 = ''R1''" "k2 = Some ''A''" "rb = 0" | "k1 = ''R1''" "k2 = Some ''R0''" "rb = 1"
    by (auto simp: REG_MODE_R_BIT_def split: if_splits)
  then show "\<exists>p q. k1 = name_of_reg p \<and> k2 = Some (name_of_reg q) \<and> q \<noteq> p \<and>
             REG_MODE_MAP p rb = Some q"
  proof cases
    case 1 then show ?thesis by (intro exI[of _ A] exI[of _ R0]) simp
  next
    case 2 then show ?thesis by (intro exI[of _ A] exI[of _ R1]) simp
  next
    case 3 then show ?thesis by (intro exI[of _ R0] exI[of _ A]) simp
  next
    case 4 then show ?thesis by (intro exI[of _ R0] exI[of _ R1]) simp
  next
    case 5 then show ?thesis by (intro exI[of _ R1] exI[of _ A]) simp
  next
    case 6 then show ?thesis by (intro exI[of _ R1] exI[of _ R0]) simp
  qed
next
  fix p rb q
  assume "REG_MODE_MAP p rb = Some q"
  then show "q \<noteq> p" by (cases p; auto split: if_splits)
next
  fix p rb q
  assume "REG_MODE_MAP p rb = Some q"
  then show "rb = 0 \<or> rb = 1" by (cases p; auto split: if_splits)
next
  fix p q :: reg and st :: bool and v :: int
  assume "q \<noteq> p"
  then show "\<exists>opc. encode_ld_st st (name_of_reg p) ''reg'' (Some (name_of_reg q)) v = Inr (opc, None) \<and>
             (if st then ST_OPCODES else LD_OPCODES) (drop_bit 3 opc AND 0x1F) =
               Some (if st then ''ST'' else ''LD'', p) \<and>
             opc AND 0x03 = 1 \<and>
             REG_MODE_MAP p (drop_bit 2 opc AND 1) = Some q"
    by (cases p; cases q; cases st;
        simp add: encode_ld_st_def REG_MODE_R_BIT_def ST_CODES_def LD_CODES_def
                  ST_OPCODES_def LD_OPCODES_def)
qed simp_all

theorem reg_mode_tables_agree_witness:
  "R1 \<noteq> A \<and> REG_MODE_R_BIT (''A'', Some ''R1'') = Some 1 \<and> REG_MODE_MAP A 1 = Some R1 \<and>
   encode_ld_st True ''A'' ''reg'' (Some ''R1'') 0 = Inr (0x1D, None) \<and>
   ST_OPCODES (drop_bit 3 0x1D AND 0x1F) = Some (''ST'', A) \<and>
   REG_MODE_MAP A (drop_bit 2 0x1D AND 1) = Some R1"
proof -
  have ne: "R1 \<noteq> A" by simp
  from reg_mode_tables_agree have
    "\<exists>rb. REG_MODE_R_BIT (name_of_reg A, Some (name_of_reg R1)) = Some rb \<and> REG_MODE_MAP A rb = Some R1"
    using ne by blast
  then have "REG_MODE_R_BIT (''A'', Some ''R1'') = Some 1 \<and> REG_MODE_MAP A 1 = Some R1"
    by (auto split: if_splits)
  then show ?thesis
    by (simp add: encode_ld_st_def ST_CODES_def ST_OPCODES_def)
qed

text \<open>
  C2. After an executed ADD, Z holds iff the new A is 0 and C iff the old A plus the
  source is at least 256; after SUB and CMP, C holds iff the old A is at least the
  source and Z iff their difference is 0 modulo 256; CMP leaves A unchanged; AND, OR
  and XOR set Z iff the result is 0 and clear C.
\<close>

theorem alu_flag_law:
  assumes ok: "cpu_ok s" and live: "\<not> halted s" "pc s \<in> loaded s"
    and f: "fetch s = Inr (opc, s1)"
    and m: "ALU_OPCODES (drop_bit 3 opc AND 0x1F) = Some mn"
  shows "\<exists>src s2 s'.
      resolve_source s1 (opc AND 0x03) (drop_bit 2 opc AND 1) A = Inr (src, s2) \<and>
      step s = Inr (True, s') \<and> 0 \<le> src \<and> src \<le> 255 \<and>
      (mn = ''ADD'' \<longrightarrow>
         a s' = (a s + src) mod 256 \<and> (z s' \<longleftrightarrow> a s' = 0) \<and> (c s' \<longleftrightarrow> a s + src \<ge> 256)) \<and>
      (mn = ''SUB'' \<longrightarrow>
         a s' = (a s - src) mod 256 \<and> (c s' \<longleftrightarrow> a s \<ge> src) \<and>
         (z s' \<longleftrightarrow> (a s - src) mod 256 = 0)) \<and>
      (mn = ''CMP'' \<longrightarrow>
         a s' = a s \<and> (c s' \<longleftrightarrow> a s \<ge> src) \<and> (z s' \<longleftrightarrow> (a s - src) mod 256 = 0)) \<and>
      (mn = ''AND'' \<longrightarrow> a s' = a s AND src \<and> (z s' \<longleftrightarrow> a s' = 0) \<and> \<not> c s') \<and>
      (mn = ''OR'' \<longrightarrow> a s' = a s OR src \<and> (z s' \<longleftrightarrow> a s' = 0) \<and> \<not> c s') \<and>
      (mn = ''XOR'' \<longrightarrow> a s' = a s XOR src \<and> (z s' \<longleftrightarrow> a s' = 0) \<and> \<not> c s')"
proof -
  obtain src s2 where rs: "resolve_source s1 (opc AND 0x03) (drop_bit 2 opc AND 1) A = Inr (src, s2)"
    and st: "step s = Inr (True, (alu mn src s2)\<lparr>cycles := cycles (alu mn src s2) + 1\<rparr>)"
    and bs: "0 \<le> src" "src \<le> 255" and a2: "a s2 = a s"
    using step_ALU[OF ok live f m] by blast
  have ba: "0 \<le> a s2" "a s2 \<le> 255" using ok a2 by (simp_all add: cpu_ok_def byte_def)
  let ?t = "\<lambda>mn. (alu mn src s2)\<lparr>cycles := cycles (alu mn src s2) + 1\<rparr>"
  have fl: "a (?t k) = a (alu k src s2)" "z (?t k) = z (alu k src s2)" "c (?t k) = c (alu k src s2)" for k
    by simp_all
  have add: "a (?t ''ADD'') = (a s + src) mod 256 \<and> (z (?t ''ADD'') \<longleftrightarrow> a (?t ''ADD'') = 0) \<and>
             (c (?t ''ADD'') \<longleftrightarrow> a s + src \<ge> 256)"
    using alu_ADD[OF ba bs] by (simp add: a2)
  have sub: "a (?t ''SUB'') = (a s - src) mod 256 \<and> (c (?t ''SUB'') \<longleftrightarrow> a s \<ge> src) \<and>
             (z (?t ''SUB'') \<longleftrightarrow> (a s - src) mod 256 = 0)"
    using alu_SUB[of src s2] by (simp add: a2)
  have cmp: "a (?t ''CMP'') = a s \<and> (c (?t ''CMP'') \<longleftrightarrow> a s \<ge> src) \<and>
             (z (?t ''CMP'') \<longleftrightarrow> (a s - src) mod 256 = 0)"
    using alu_CMP[of src s2] by (simp add: a2)
  have land: "a (?t ''AND'') = a s AND src \<and> (z (?t ''AND'') \<longleftrightarrow> a (?t ''AND'') = 0) \<and> \<not> c (?t ''AND'')"
    using alu_AND[OF ba bs] by (simp add: a2)
  have lor: "a (?t ''OR'') = a s OR src \<and> (z (?t ''OR'') \<longleftrightarrow> a (?t ''OR'') = 0) \<and> \<not> c (?t ''OR'')"
    using alu_OR[OF ba bs] by (simp add: a2)
  have lxor: "a (?t ''XOR'') = a s XOR src \<and> (z (?t ''XOR'') \<longleftrightarrow> a (?t ''XOR'') = 0) \<and> \<not> c (?t ''XOR'')"
    using alu_XOR[OF ba bs] by (simp add: a2)
  show ?thesis
    apply (rule exI[of _ src], rule exI[of _ s2], rule exI[of _ "?t mn"])
    apply (intro conjI impI)
    using rs st bs add sub cmp land lor lxor by simp_all
qed

theorem alu_flag_law_witness:
  "cpu_ok ex_add_carry \<and> \<not> halted ex_add_carry \<and> pc ex_add_carry \<in> loaded ex_add_carry \<and>
   fetch ex_add_carry = Inr (0x30, ex_add_carry\<lparr>pc := 1\<rparr>) \<and>
   ALU_OPCODES (drop_bit 3 0x30 AND 0x1F) = Some ''ADD'' \<and>
   (\<exists>s'. step ex_add_carry = Inr (True, s') \<and> a s' = 0 \<and> z s' \<and> c s')"
proof -
  have h1: "cpu_ok ex_add_carry" by (rule cpu_ok_ex)
  have h2: "\<not> halted ex_add_carry" "pc ex_add_carry \<in> loaded ex_add_carry"
    by (simp_all add: ex_add_carry_def CPU_init_def)
  have h3: "fetch ex_add_carry = Inr (0x30, ex_add_carry\<lparr>pc := 1\<rparr>)"
    by (simp add: ex_add_carry_def CPU_init_def fetch_def py_getitem_def)
  have h4: "ALU_OPCODES (drop_bit 3 0x30 AND 0x1F) = Some ''ADD''"
    by (simp add: ALU_OPCODES_def)
  have rs: "resolve_source (ex_add_carry\<lparr>pc := 1\<rparr>) (0x30 AND 0x03) (drop_bit 2 0x30 AND 1) A
        = Inr (1, ex_add_carry\<lparr>pc := 2\<rparr>)"
    by (simp add: ex_add_carry_def CPU_init_def resolve_source_def fetch_def py_getitem_def)
  have a0: "a ex_add_carry = 255" by (simp add: ex_add_carry_def CPU_init_def)
  have rs': "resolve_source (ex_add_carry\<lparr>pc := 1\<rparr>) 0 0 A = Inr (1, ex_add_carry\<lparr>pc := 2\<rparr>)"
    using rs by simp
  note th = alu_flag_law[OF h1 h2 h3 h4, simplified, unfolded rs' a0, simplified]
  from th h1 h2 h3 h4 show ?thesis by auto
qed

text \<open>
  C5. A program that reaches HLT without a fault within the \<open>max_cycles\<close> budget
  should make \<open>run\<close> return 0. The machine below holds a lone HLT: it halts on its
  first cycle, and \<open>run\<close> with a budget of one cycle returns 1, with a budget of
  two cycles 0.
\<close>

theorem run_halt_on_last_cycle_exits_1:
  "load_map CPU_init [(0, 0xA8)] = Inr ex_hlt \<and>
   step ex_hlt = Inr (False, ex_hlt\<lparr>pc := 1, halted := True, cycles := 1\<rparr>) \<and>
   run ex_hlt 1 = Inr 1 \<and>
   run ex_hlt 2 = Inr 0"
  by (simp add: ex_hlt_def CPU_init_def sim_defs run_end_def)

text \<open>
  C6, as stated: an opcode of the PUSH/POP/INC/DEC groups with bit 2 set raises an
  invalid-opcode fault. It does not: the byte 0x94 is in the INC group, has bit 2
  set, and increments A.
\<close>

theorem inc_bit2_set_executes:
  "drop_bit 3 (0x94::int) AND 0x1F = 0x12 \<and> drop_bit 2 (0x94::int) AND 1 = 1 \<and>
   load_map CPU_init [(0, 0x94)] = Inr ex_inc4 \<and>
   step ex_inc4 = Inr (True, ex_inc4\<lparr>a := 1, pc := 1, cycles := 1\<rparr>)"
  by (simp add: ex_inc4_def CPU_init_def sim_defs)

text \<open>
  C6, amended: for an opcode of the PUSH/POP/INC/DEC groups, \<open>step\<close> raises the
  invalid-encoding fault iff bits 1..0 are both set; bit 2 is not looked at, so with a
  register code of 0..2 the opcode with bit 2 set executes as the one without.
\<close>

theorem group_encoding_fault_iff:
  assumes live: "\<not> halted s" "pc s \<in> loaded s" and f: "fetch s = Inr (opc, s1)"
    and g: "drop_bit 3 opc AND 0x1F \<in> {0x10, 0x11, 0x12, 0x13}"
  shows "((\<exists>m. step s = Inl (RuntimeError (InvalidEncoding m opc (pc s)))) \<longleftrightarrow> opc AND 0x03 = 3) \<and>
         (opc AND 0x03 \<noteq> 3 \<longrightarrow> execute (pc s) (opc OR 4) s1 = execute (pc s) opc s1)"
proof (intro conjI impI iffI)
  assume "\<exists>m. step s = Inl (RuntimeError (InvalidEncoding m opc (pc s)))"
  then obtain m where st: "step s = Inl (RuntimeError (InvalidEncoding m opc (pc s)))" by blast
  show "opc AND 0x03 = 3"
  proof (rule ccontr)
    assume mm: "opc AND 0x03 \<noteq> 3"
    from st live f have "execute (pc s) opc s1 = Inl (RuntimeError (InvalidEncoding m opc (pc s)))"
      by (auto simp: step_def Let_def elim!: andthen_InlE)
    from group_valid_no_encoding_fault[OF g mm this] show False by simp
  qed
next
  assume "opc AND 0x03 = 3"
  from group_invalid_fault[OF g this] obtain m where
    "execute (pc s) opc s1 = Inl (RuntimeError (InvalidEncoding m opc (pc s)))" by blast
  with live f show "\<exists>m. step s = Inl (RuntimeError (InvalidEncoding m opc (pc s)))"
    by (simp add: step_def)
next
  assume "opc AND 0x03 \<noteq> 3"
  with g show "execute (pc s) (opc OR 4) s1 = execute (pc s) opc s1"
    by (rule group_bit2_ignored)
qed

theorem group_encoding_fault_iff_witness:
  "\<not> halted ex_inc3 \<and> pc ex_inc3 \<in> loaded ex_inc3 \<and>
   fetch ex_inc3 = Inr (0x93, ex_inc3\<lparr>pc := 1\<rparr>) \<and>
   drop_bit 3 (0x93::int) AND 0x1F \<in> {0x10, 0x11, 0x12, 0x13} \<and>
   (0x93::int) AND 0x03 = 3 \<and>
   (\<exists>m. step ex_inc3 = Inl (RuntimeError (InvalidEncoding m 0x93 (pc ex_inc3)))) \<and>
   step ex_inc3 = Inl (RuntimeError (InvalidEncoding ''INC'' 0x93 0))"
proof -
  have h1: "\<not> halted ex_inc3" "pc ex_inc3 \<in> loaded ex_inc3"
    by (simp_all add: ex_inc3_def CPU_init_def)
  have h2: "fetch ex_inc3 = Inr (0x93, ex_inc3\<lparr>pc := 1\<rparr>)"
    by (simp add: ex_inc3_def CPU_init_def fetch_def py_getitem_def)
  have h3: "drop_bit 3 (0x93::int) AND 0x1F \<in> {0x10, 0x11, 0x12, 0x13}" by simp
  have h4: "(0x93::int) AND 0x03 = 3" by simp
  from group_encoding_fault_iff[OF h1 h2 h3] h4
  have e: "\<exists>m. step ex_inc3 = Inl (RuntimeError (InvalidEncoding m 0x93 (pc ex_inc3)))"
    by blast
  have c: "step ex_inc3 = Inl (RuntimeError (InvalidEncoding ''INC'' 0x93 0))"
    by (simp add: ex_inc3_def CPU_init_def sim_defs)
  from h1 h2 h3 h4 e c show ?thesis by (intro conjI)
qed

text \<open>
  C10. On a CPU that has not halted, \<open>step\<close> raises the unloaded-PC fault iff the
  address of the opcode byte is not in the loaded set; nothing else reads the loaded
  set, so the result of \<open>step\<close> is the same for every loaded set that holds the
  opcode's address, whether or not it holds the operand's.
\<close>

theorem pc_unloaded_fault_iff:
  assumes "\<not> halted s"
  shows "((\<exists>addr. step s = Inl (RuntimeError (PCUnloaded addr))) \<longleftrightarrow> pc s \<notin> loaded s) \<and>
         (pc s \<in> loaded s \<longrightarrow> pc s \<in> L \<longrightarrow>
            step (s\<lparr>loaded := L\<rparr>) = map_sum id (apsnd (loaded_update (\<lambda>_. L))) (step s))"
proof (intro conjI impI iffI)
  assume "\<exists>addr. step s = Inl (RuntimeError (PCUnloaded addr))"
  then obtain addr where st: "step s = Inl (RuntimeError (PCUnloaded addr))" by blast
  show "pc s \<notin> loaded s"
  proof
    assume "pc s \<in> loaded s"
    with assms st have "andthen (fetch s) (\<lambda>(opcode, s1).
          andthen (execute (pc s) opcode s1) (\<lambda>s2.
            let s3 = s2\<lparr>cycles := cycles s2 + 1\<rparr> in Inr (\<not> halted s3, s3))) = Inl (RuntimeError (PCUnloaded addr))"
      by (simp add: step_def)
    then have "is_pcu (RuntimeError (PCUnloaded addr)) \<Longrightarrow> False"
      by (auto simp: Let_def elim!: andthen_InlE dest!: fetch_pcu execute_pcu)
    then show False by simp
  qed
next
  assume "pc s \<notin> loaded s"
  with assms show "\<exists>addr. step s = Inl (RuntimeError (PCUnloaded addr))"
    by (simp add: step_def)
next
  assume "pc s \<in> loaded s" "pc s \<in> L"
  then show "step (s\<lparr>loaded := L\<rparr>) = map_sum id (apsnd (loaded_update (\<lambda>_. L))) (step s)"
    by (rule step_loaded)
qed

theorem pc_unloaded_fault_iff_witness:
  "\<not> halted ex_jmp \<and> pc ex_jmp \<in> loaded ex_jmp \<and> (pc ex_jmp + 1) AND 0xFF \<notin> loaded ex_jmp \<and>
   \<not> (\<exists>addr. step ex_jmp = Inl (RuntimeError (PCUnloaded addr))) \<and>
   step ex_jmp = Inr (True, ex_jmp\<lparr>cycles := 1\<rparr>) \<and>
   step (ex_jmp\<lparr>loaded := {0, 1}\<rparr>) = Inr (True, ex_jmp\<lparr>loaded := {0, 1}, cycles := 1\<rparr>)"
proof -
  have h1: "\<not> halted ex_jmp" by (simp add: ex_jmp_def CPU_init_def)
  have h2: "pc ex_jmp \<in> loaded ex_jmp" "(pc ex_jmp + 1) AND 0xFF \<notin> loaded ex_jmp"
    "pc ex_jmp \<in> {0, 1}"
    by (simp_all add: ex_jmp_def CPU_init_def)
  have c: "step ex_jmp = Inr (True, ex_jmp\<lparr>cycles := 1\<rparr>)"
    by (simp add: ex_jmp_def CPU_init_def sim_defs)
  note th = pc_unloaded_fault_iff[OF h1, of "{0, 1}"]
  from th h2 have n: "\<not> (\<exists>addr. step ex_jmp = Inl (RuntimeError (PCUnloaded addr)))" by blast
  from th h2 have "step (ex_jmp\<lparr>loaded := {0, 1}\<rparr>) =
      map_sum id (apsnd (loaded_update (\<lambda>_. {0, 1}))) (step ex_jmp)" by blast
  with c have l: "step (ex_jmp\<lparr>loaded := {0, 1}\<rparr>) = Inr (True, ex_jmp\<lparr>loaded := {0, 1}, cycles := 1\<rparr>)"
    by simp
  from h1 h2 n c l show ?thesis by (intro conjI)
qed

section \<open>Claims about the assembler\<close>

text \<open>
  C3. For a branch line whose operand parses and resolves to \<open>target\<close>, pass 2 lists
  the opcode and one displacement byte \<open>d\<close>. If the line adds no diagnostic, the
  target is the operand's own value, \<open>target - (start + 2)\<close> lies in
  \<open>[-128, 127]\<close>, and \<open>d\<close> read as a signed byte (as the simulator reads it) is that
  difference; both bytes are in the output. If the difference is out of range, a
  range diagnostic is recorded and the byte listed is the placeholder 0.
\<close>

theorem branch_displacement:
  assumes pl: "parse_line raw_line = (label, Some mn, Some text)"
    and br: "mn \<in> BRANCH_INSTRUCTIONS"
    and po: "parse_operand text (symbols (asm ps)) = Inr (mode, reg, v)"
    and rs: "resolve (asm ps) v line_num = (VInt target, st1)"
  shows "\<exists>opcode d ps'.
      FIXED_OPCODES mn = Some opcode \<and>
      pass2_line ps line_num raw_line = Inr ps' \<and>
      listing ps' = listing ps @ [(Some (pc_asm (asm ps)), [opcode, d], raw_line)] \<and>
      (errors (asm ps') = errors (asm ps) \<longrightarrow>
         (v = VInt target \<or>
          (\<exists>name. v = VStr name \<and> map_of (symbols (asm ps)) name = Some target)) \<and>
         - 128 \<le> target - (pc_asm (asm ps) + 2) \<and> target - (pc_asm (asm ps) + 2) \<le> 127 \<and>
         0 \<le> d \<and> d \<le> 255 \<and>
         (if d < 128 then d else d - 256) = target - (pc_asm (asm ps) + 2) \<and>
         map_of (output_dict ps') (pc_asm (asm ps)) = Some opcode \<and>
         map_of (output_dict ps') (pc_asm (asm ps) + 1) = Some d) \<and>
      (target - (pc_asm (asm ps) + 2) < - 128 \<or> target - (pc_asm (asm ps) + 2) > 127 \<longrightarrow>
         d = 0 \<and>
         (line_num, BranchRange (target - (pc_asm (asm ps) + 2))) \<in> set (errors (asm ps')))"
proof -
  let ?start = "pc_asm (asm ps)"
  let ?disp = "target - (?start + 2)"
  obtain opcode where op: "FIXED_OPCODES mn = Some opcode"
    using branch_opcode[OF br] by blast
  have ne: "mn \<noteq> ''.ORG''" "mn \<noteq> ''.EQU''"
    using br by (auto simp: BRANCH_INSTRUCTIONS_def)
  from resolve_errors[OF rs] have st1:
    "st1 = asm ps \<or> (\<exists>m. st1 = error (asm ps) line_num m)" by blast
  show ?thesis
  proof (cases "?disp < - 128 \<or> ?disp > 127")
    case True
    let ?st = "error st1 line_num (BranchRange ?disp)"
    let ?w = "write_emitted ?st line_num ?start (output_dict ps) [opcode, 0]"
    let ?ps' = "ps\<lparr>asm := (fst ?w)\<lparr>pc_asm := ?start + 2\<rparr>, output_dict := snd ?w,
                    listing := listing ps @ [(Some ?start, [opcode, 0], raw_line)]\<rparr>"
    have enc: "encode_line (asm ps) line_num ?start mn (Some text) = Inr (?st, [opcode, 0])"
      using True po rs by (simp add: encode_line_branch[OF br op] Let_def)
    have p2: "pass2_line ps line_num raw_line = Inr ?ps'"
      unfolding pass2_line_def using pl ne enc by (simp add: Let_def split_beta)
    have w: "errors (fst ?w) = errors ?st \<or> (\<exists>m. errors (fst ?w) = errors ?st @ [(line_num, m)])"
      by (simp add: write_emitted_two errors_error)
    then have mem: "(line_num, BranchRange ?disp) \<in> set (errors (fst ?w))"
      by (auto simp: errors_error)
    have neq: "errors (fst ?w) \<noteq> errors (asm ps)"
      using w st1 by (auto simp: errors_error)
    show ?thesis
      apply (rule exI[of _ opcode], rule exI[of _ 0], rule exI[of _ ?ps'])
      using op p2 mem neq True by simp
  next
    case False
    let ?d = "?disp AND 0xFF"
    let ?w = "write_emitted st1 line_num ?start (output_dict ps) [opcode, ?d]"
    let ?ps' = "ps\<lparr>asm := (fst ?w)\<lparr>pc_asm := ?start + 2\<rparr>, output_dict := snd ?w,
                    listing := listing ps @ [(Some ?start, [opcode, ?d], raw_line)]\<rparr>"
    have enc: "encode_line (asm ps) line_num ?start mn (Some text) = Inr (st1, [opcode, ?d])"
      using False po rs by (simp add: encode_line_branch[OF br op] Let_def)
    have p2: "pass2_line ps line_num raw_line = Inr ?ps'"
      unfolding pass2_line_def using pl ne enc by (simp add: Let_def split_beta)
    have rng: "- 128 \<le> ?disp" "?disp \<le> 127" using False by simp_all
    have d: "0 \<le> ?d" "?d \<le> 255" using and255_range[of ?disp] by simp_all
    have sg: "(if ?d < 128 then ?d else ?d - 256) = ?disp"
      using signed_byte[OF rng] by simp
    have noerr: "errors (fst ?w) = errors (asm ps) \<Longrightarrow>
        st1 = asm ps \<and> map_of (snd ?w) ?start = Some opcode \<and> map_of (snd ?w) (?start + 1) = Some ?d"
    proof -
      assume e: "errors (fst ?w) = errors (asm ps)"
      have a: "st1 = asm ps"
      proof (rule ccontr)
        assume "st1 \<noteq> asm ps"
        with st1 obtain m where "st1 = error (asm ps) line_num m" by blast
        with e show False by (auto simp: write_emitted_two errors_error split: if_splits)
      qed
      with e have b: "\<not> ?start > 0xFF" "\<not> ?start + 1 > 0xFF"
        by (auto simp: write_emitted_two errors_error split: if_splits)
      then have "snd ?w = AList.update (?start + 1) ?d (AList.update ?start opcode (output_dict ps))"
        by (simp add: write_emitted_two)
      then show ?thesis using a by (simp add: update_conv')
    qed
    show ?thesis
      apply (rule exI[of _ opcode], rule exI[of _ ?d], rule exI[of _ ?ps'])
      using op p2 rng d sg noerr resolve_target[of "asm ps" v line_num target] rs False
      by auto
  qed
qed

theorem branch_displacement_witness:
  "parse_line '' BNZ L'' = (None, Some ''BNZ'', Some ''L'') \<and>
   ''BNZ'' \<in> BRANCH_INSTRUCTIONS \<and>
   parse_operand ''L'' (symbols (asm ex_branch)) = Inr (''value'', None, VInt 4) \<and>
   resolve (asm ex_branch) (VInt 4) 6 = (VInt 4, asm ex_branch) \<and>
   pass2_line ex_branch 6 '' BNZ L'' =
     Inr \<lparr> asm = \<lparr> symbols = [(''L'', 4)], pc_asm = 8, errors = [] \<rparr>,
           output_dict = [(6, 0x69), (7, 0xFC)],
           listing = [(Some 6, [0x69, 0xFC], '' BNZ L'')] \<rparr> \<and>
   (if (0xFC::int) < 128 then 0xFC else 0xFC - 256) = 4 - (pc_asm (asm ex_branch) + 2)"
proof -
  have h1: "parse_line '' BNZ L'' = (None, Some ''BNZ'', Some ''L'')" by code_simp
  have h2: "''BNZ'' \<in> BRANCH_INSTRUCTIONS" by (simp add: BRANCH_INSTRUCTIONS_def)
  have h3: "parse_operand ''L'' (symbols (asm ex_branch)) = Inr (''value'', None, VInt 4)"
    by code_simp
  have h4: "resolve (asm ex_branch) (VInt 4) 6 = (VInt 4, asm ex_branch)"
    by (simp add: resolve_def)
  have c: "pass2_line ex_branch 6 '' BNZ L'' =
     Inr \<lparr> asm = \<lparr> symbols = [(''L'', 4)], pc_asm = 8, errors = [] \<rparr>,
           output_dict = [(6, 0x69), (7, 0xFC)],
           listing = [(Some 6, [0x69, 0xFC], '' BNZ L'')] \<rparr>"
    by code_simp
  from branch_displacement[OF h1 h2 h3 h4] obtain opcode d ps' where
    a: "pass2_line ex_branch 6 '' BNZ L'' = Inr ps'"
    and l: "listing ps' = listing ex_branch @ [(Some (pc_asm (asm ex_branch)), [opcode, d], '' BNZ L'')]"
    and e: "errors (asm ps') = errors (asm ex_branch) \<longrightarrow>
            (if d < 128 then d else d - 256) = 4 - (pc_asm (asm ex_branch) + 2)"
    by blast
  from a c have ps': "ps' = \<lparr> asm = \<lparr> symbols = [(''L'', 4)], pc_asm = 8, errors = [] \<rparr>,
           output_dict = [(6, 0x69), (7, 0xFC)],
           listing = [(Some 6, [0x69, 0xFC], '' BNZ L'')] \<rparr>" by simp
  with l have "d = 0xFC" by (simp add: ex_branch_def)
  moreover from ps' have "errors (asm ps') = errors (asm ex_branch)" by (simp add: ex_branch_def)
  ultimately have "(if (0xFC::int) < 128 then 0xFC else 0xFC - 256) = 4 - (pc_asm (asm ex_branch) + 2)"
    using e by simp
  with h1 h2 h3 h4 c show ?thesis by (intro conjI)
qed

text \<open>
  C7. Pass 2 should emit for each line as many bytes as pass 1 predicted, also on a
  line with an error. For \<open>ST A, #5\<close> (and for \<open>LD X, #5\<close>) \<open>instruction_size\<close>
  predicts 2 bytes and pass 2 emits the one placeholder byte: the label on the next
  line gets the value 2 in pass 1, and its instruction is listed at address 1.
\<close>

theorem pass2_emits_less_than_predicted:
  "instruction_size ''ST'' (Some ''A, #5'') = Inr 2 \<and>
   encode_line Assembler_init 1 0 ''ST'' (Some ''A, #5'') =
     Inr (error Assembler_init 1 (Message STNoImmediate), [0]) \<and>
   instruction_size ''LD'' (Some ''X, #5'') = Inr 2 \<and>
   encode_line Assembler_init 1 0 ''LD'' (Some ''X, #5'') =
     Inr (error Assembler_init 1 (FirstOperand ''LD'' (Some ''X'')), [0]) \<and>
   pass1 Assembler_init [''ST A, #5'', ''L: NOP''] =
     Inr \<lparr> symbols = [(''L'', 2)], pc_asm = 3, errors = [] \<rparr> \<and>
   map_sum id listing
     (pass2 \<lparr> symbols = [(''L'', 2)], pc_asm = 3, errors = [] \<rparr> [''ST A, #5'', ''L: NOP'']) =
     Inr [(Some 0, [0], ''ST A, #5''), (Some 1, [0xA0], ''L: NOP'')]"
  by code_simp

text \<open>
  C8. A second definition of an identifier should be reported. Pass 1 reports a label
  whose name is already defined, but \<open>.EQU\<close> overwrites a name that an earlier
  \<open>.EQU\<close> or a label defined, with no diagnostic.
\<close>

theorem equ_redefinition_not_reported:
  "pass1 Assembler_init [''.EQU X, 1'', ''.EQU X, 2''] =
     Inr \<lparr> symbols = [(''X'', 2)], pc_asm = 0, errors = [] \<rparr> \<and>
   pass1 Assembler_init [''X: NOP'', ''.EQU X, 5''] =
     Inr \<lparr> symbols = [(''X'', 5)], pc_asm = 1, errors = [] \<rparr> \<and>
   assemble_result (''.EQU X, 1'' @ [CHR 0x0A] @ ''.EQU X, 2'') =
     Inr ([], [(None, [], ''.EQU X, 1''), (None, [], ''.EQU X, 2'')]) \<and>
   assemble_result (''X: NOP'' @ [CHR 0x0A] @ ''.EQU X, 5'') =
     Inr ([], [(Some 0, [0xA0], ''X: NOP''), (None, [], ''.EQU X, 5'')]) \<and>
   assemble_result (''X: NOP'' @ [CHR 0x0A] @ ''X: NOP'') =
     Inr ([(2, DuplicateLabel ''X'')], []) \<and>
   assemble_result (''.EQU X, 5'' @ [CHR 0x0A] @ ''X: NOP'') =
     Inr ([(2, DuplicateLabel ''X'')], [])"
  by code_simp

text \<open>
  C9. Escape sequences in the quoted strings of \<open>.DB\<close> and \<open>.DS\<close> should be decoded
  and a non-ASCII character rejected. \<open>.DS\<close> does so through \<open>decode_string\<close>;
  \<open>.DB\<close> emits the code point of every character of the string as it stands.
\<close>

theorem db_string_not_decoded:
  "assemble_result (''.DB '' @ [CHR 0x22, CHR 0x5C, CHR ''n'', CHR 0x22]) =
     Inr ([], [(Some 0, [0x5C, 0x6E], ''.DB '' @ [CHR 0x22, CHR 0x5C, CHR ''n'', CHR 0x22])]) \<and>
   assemble_result (''.DB '' @ [CHR 0x22, CHR 0xE9, CHR 0x22]) =
     Inr ([], [(Some 0, [0xE9], ''.DB '' @ [CHR 0x22, CHR 0xE9, CHR 0x22])]) \<and>
   assemble_result (''.DS '' @ [CHR 0x22, CHR 0x5C, CHR ''n'', CHR 0x22]) =
     Inr ([], [(Some 0, [0x0A, 0x00], ''.DS '' @ [CHR 0x22, CHR 0x5C, CHR ''n'', CHR 0x22])]) \<and>
   decode_string [CHR 0x5C, CHR ''n'', CHR 0x5C, CHR ''t'', CHR 0x5C, CHR ''r'', CHR 0x5C, CHR ''0'',
                  CHR 0x5C, CHR 0x5C] = Inr [0x0A, 0x09, 0x0D, 0x00, 0x5C] \<and>
   decode_string [CHR 0xE9] = Inl (ValueError (NonAscii (CHR 0xE9)))"
  by code_simp

section \<open>Claims about the object-file codecs\<close>

text \<open>
  Claim C4. For every map \<open>m\<close> from addresses in \<open>[0,255]\<close> to byte values, decoding the
  encoded object file reproduces \<open>m\<close> exactly, for both codecs:
  \<open>parse_hex(generate_hex(m)) == m\<close> and \<open>parse_srec(generate_srec(m)) == m\<close>.

  A dictionary is an association list with distinct keys, and two dictionaries are equal
  when they map the same keys to the same values (\<open>map_of\<close>). Both parsers return, with
  no exception, a dictionary equal to \<open>m\<close>.
\<close>

theorem codec_round_trip:
  assumes "distinct (map fst m)"
    and "\<forall>(a, b)\<in>set m. 0 \<le> a \<and> a \<le> 255 \<and> 0 \<le> b \<and> b \<le> 255"
  shows "(\<exists>d. parse_hex (generate_hex m) = Inr d \<and> distinct (map fst d) \<and> map_of d = map_of m) \<and>
         (\<exists>d. parse_srec (generate_srec m) = Inr d \<and> distinct (map fst d) \<and> map_of d = map_of m)"
proof -
  define addrs where "addrs = sort (map fst m)"
  define chunks where "chunks = runs m addrs"
  define d where "d = fold (\<lambda>x. AList.update x (the (map_of m x))) addrs []"
  note c = dict_chunks[OF assms(2), folded addrs_def, folded chunks_def]
  have dd: "distinct (map fst d)" unfolding d_def by (rule fold_update_distinct) simp
  have dm: "map_of d = map_of m" unfolding d_def by (rule c(3))
  have st: "fold (\<lambda>(b, d) r. store_data r b d) chunks [] = d"
    unfolding chunks_def d_def by (rule runs_fold[OF c(1)])
  have good: "byte b" "list_all byte dt" "length dt \<le> 16" if "(b, dt) \<in> set chunks" for b dt
    using c(2) that by auto
  have "\<forall>l\<in>set (map (\<lambda>(b, d). hex_record b d) chunks @ ['':00000001FF'']). \<forall>ch\<in>set l. \<not> isspace ch"
  proof
    fix l assume "l \<in> set (map (\<lambda>(b, d). hex_record b d) chunks @ ['':00000001FF''])"
    then consider b dt where "(b, dt) \<in> set chunks" "l = hex_record b dt" | "l = '':00000001FF''"
      by auto
    then show "\<forall>ch\<in>set l. \<not> isspace ch"
    proof cases
      case 1
      then show ?thesis using hex_record_nospace[OF good[OF 1(1)]] by simp
    next
      case 2
      then show ?thesis by (simp add: isspace_def py_ord_def)
    qed
  qed
  then have "splitlines (generate_hex m) = map (\<lambda>(b, d). hex_record b d) chunks @ ['':00000001FF'']"
    unfolding generate_hex_lines addrs_def[symmetric] chunks_def[symmetric]
    by (intro splitlines_join) simp_all
  then have h: "parse_hex (generate_hex m) = Inr d"
    using parse_hex_loop_chunks[OF c(2), of "[]" 1] by (simp add: parse_hex_def st)
  define s0 where "s0 = srec_line ''S0'' ([2 + 1 + int (length (map py_ord ''EDU-CPU'')), 0, 0] @ map py_ord ''EDU-CPU'')"
  have "\<forall>l\<in>set (s0 # map (\<lambda>(b, d). srec_record b d) chunks @ [srec_line ''S9'' [3, 0, 0]]). \<forall>ch\<in>set l. \<not> isspace ch"
  proof
    fix l assume "l \<in> set (s0 # map (\<lambda>(b, d). srec_record b d) chunks @ [srec_line ''S9'' [3, 0, 0]])"
    then consider b dt where "(b, dt) \<in> set chunks" "l = srec_record b dt" | "l = s0"
      | "l = srec_line ''S9'' [3, 0, 0]"
      by auto
    then show "\<forall>ch\<in>set l. \<not> isspace ch"
    proof cases
      case 1
      then show ?thesis using srec_record_nospace[OF good[OF 1(1)]] by simp
    next
      case 2
      have "list_all byte ([2 + 1 + int (length (map py_ord ''EDU-CPU'')), 0, 0] @ map py_ord ''EDU-CPU'')"
        by (simp add: byte_def py_ord_def)
      from srec_line_nospace[OF this, of "CHR ''0''"] show ?thesis
        unfolding 2 s0_def by (simp add: isspace_def py_ord_def)
    next
      case 3
      have "list_all byte [3, 0, 0]" by (simp add: byte_def)
      from srec_line_nospace[OF this, of "CHR ''9''"] show ?thesis
        unfolding 3 by (simp add: isspace_def py_ord_def)
    qed
  qed
  then have sl: "splitlines (generate_srec m) = s0 # map (\<lambda>(b, d). srec_record b d) chunks @ [srec_line ''S9'' [3, 0, 0]]"
    unfolding generate_srec_lines addrs_def[symmetric] chunks_def[symmetric] s0_def[symmetric]
    by (intro splitlines_join) simp_all
  have "parse_srec (generate_srec m) =
        parse_srec_loop [] 1 (s0 # map (\<lambda>(b, d). srec_record b d) chunks @ [srec_line ''S9'' [3, 0, 0]])"
    by (simp only: parse_srec_def sl)
  also have "\<dots> = parse_srec_loop [] (Suc 1) (map (\<lambda>(b, d). srec_record b d) chunks @ [srec_line ''S9'' [3, 0, 0]])"
    unfolding s0_def by (rule parse_srec_loop_header)
  also have "\<dots> = Inr d"
    unfolding parse_srec_loop_chunks[OF c(2)] st ..
  finally have s: "parse_srec (generate_srec m) = Inr d" .
  from h s dd dm show ?thesis by simp
qed

theorem codec_round_trip_witness:
  "distinct (map fst ex_image) \<and>
   list_all (\<lambda>(a, b). 0 \<le> a \<and> a \<le> 255 \<and> 0 \<le> b \<and> b \<le> 255) ex_image \<and>
   parse_hex (generate_hex ex_image) =
     Inr [(0, 0), (1, 65), (2, 26), (3, 255), (16, 72), (255, 168)] \<and>
   parse_srec (generate_srec ex_image) =
     Inr [(0, 0), (1, 65), (2, 26), (3, 255), (16, 72), (255, 168)] \<and>
   (\<exists>d. parse_hex (generate_hex ex_image) = Inr d \<and> distinct (map fst d) \<and>
        map_of d = map_of ex_image) \<and>
   (\<exists>d. parse_srec (generate_srec ex_image) = Inr d \<and> distinct (map fst d) \<and>
        map_of d = map_of ex_image)"
proof -
  have h1: "distinct (map fst ex_image)" by (simp add: ex_image_def)
  have h2: "\<forall>(a, b)\<in>set ex_image. 0 \<le> a \<and> a \<le> 255 \<and> 0 \<le> b \<and> b \<le> 255"
    by (simp add: ex_image_def)
  have h3: "list_all (\<lambda>(a, b). 0 \<le> a \<and> a \<le> 255 \<and> 0 \<le> b \<and> b \<le> 255) ex_image"
    by (simp add: ex_image_def)
  have e1: "parse_hex (generate_hex ex_image) =
      Inr [(0, 0), (1, 65), (2, 26), (3, 255), (16, 72), (255, 168)]"
    by code_simp
  have e2: "parse_srec (generate_srec ex_image) =
      Inr [(0, 0), (1, 65), (2, 26), (3, 255), (16, 72), (255, 168)]"
    by code_simp
  from codec_round_trip[OF h1 h2] h1 h3 e1 e2 show ?thesis by blast
qed

end
